theory Spec2Isabelle
  imports Complex_Main "HOL-Library.Char_ord" "HOL-Library.List_Lexorder"
begin

section \<open>Strings as the discovery script uses them\<close>

text \<open>
  The script \<^verbatim>\<open>scripts/discover.py\<close> works on Python \<^verbatim>\<open>str\<close> values. They are embedded as
  \<^typ>\<open>string\<close>, each \<^typ>\<open>char\<close> read as the code point of the same number
  (U+0000 to U+00FF); text with code points above U+00FF is outside the embedding.
  Lists of strings are ordered by \<open>HOL-Library.List_Lexorder\<close> over \<open>HOL-Library.Char_ord\<close>,
  which is Python's code point order on \<^verbatim>\<open>str\<close>.
\<close>

definition code_point :: "char \<Rightarrow> nat" where
  "code_point c = of_char c"

text \<open>\<^verbatim>\<open>str.isspace\<close> on one code point below U+0100: what \<^verbatim>\<open>str.strip()\<close> removes.\<close>

definition is_space :: "char \<Rightarrow> bool" where
  "is_space c = (let n = code_point c in
     (9 \<le> n \<and> n \<le> 13) \<or> (28 \<le> n \<and> n \<le> 32) \<or> n = 133 \<or> n = 160)"

definition py_strip :: "string \<Rightarrow> string" where
  "py_strip s = rev (dropWhile is_space (rev (dropWhile is_space s)))"

text \<open>\<^verbatim>\<open>str.lower()\<close> on one code point below U+0100: A-Z and the Latin-1 capitals.\<close>

definition lower_char :: "char \<Rightarrow> char" where
  "lower_char c = (let n = code_point c in
     if (65 \<le> n \<and> n \<le> 90) \<or> (192 \<le> n \<and> n \<le> 214) \<or> (216 \<le> n \<and> n \<le> 222)
     then char_of (n + 32) else c)"

definition py_lower :: "string \<Rightarrow> string" where
  "py_lower s = map lower_char s"

text \<open>
  \<^verbatim>\<open>s.split(sep, 1)\<close> for a non-empty separator: the text before and after the leftmost
  occurrence of \<open>sep\<close>, or \<open>s\<close> alone when there is none. The script only calls it with the
  literals \<^verbatim>\<open>"//"\<close>, \<^verbatim>\<open>"/"\<close> and \<^verbatim>\<open>":"\<close>.
\<close>

fun str_partition :: "string \<Rightarrow> string \<Rightarrow> (string \<times> string) option" where
  "str_partition sep [] = None"
| "str_partition sep (c # cs) =
     (if take (length sep) (c # cs) = sep then Some ([], drop (length sep) (c # cs))
      else (case str_partition sep cs of
              None \<Rightarrow> None
            | Some (a, b) \<Rightarrow> Some (c # a, b)))"

definition split1 :: "string \<Rightarrow> string \<Rightarrow> string list" where
  "split1 sep s = (case str_partition sep s of None \<Rightarrow> [s] | Some (a, b) \<Rightarrow> [a, b])"

text \<open>\<^verbatim>\<open>s.split(".")\<close>: the pieces between the dots.\<close>

fun split_dots :: "string \<Rightarrow> string list" where
  "split_dots [] = [[]]"
| "split_dots (c # cs) =
     (if c = CHR ''.'' then [] # split_dots cs
      else (case split_dots cs of
              [] \<Rightarrow> [[c]]
            | g # gs \<Rightarrow> (c # g) # gs))"

section \<open>Domain normalisation and validation\<close>

text \<open>
  \<^verbatim>\<open>
  def normalize_domain(raw: str) -> str:
      d = (raw or "").strip()
      d = d.split("//", 1)[-1]  # remove scheme if present
      d = d.split("/", 1)[0]    # keep host
      d = d.split(":", 1)[0]    # drop port
      d = d.lower()
      if d.startswith("www."):
          d = d[4:]
      return d
  \<close>
\<close>

definition normalize_domain :: "string \<Rightarrow> string" where
  "normalize_domain raw =
     (let d = py_strip raw;
          d = last (split1 ''//'' d);
          d = hd (split1 ''/'' d);
          d = hd (split1 '':'' d);
          d = py_lower d
      in if take 4 d = ''www.'' then drop 4 d else d)"

text \<open>The character classes of the two regular expressions of \<^verbatim>\<open>is_valid_domain\<close>.\<close>

definition is_digit :: "char \<Rightarrow> bool" where
  "is_digit c = (48 \<le> code_point c \<and> code_point c \<le> 57)"

definition is_az :: "char \<Rightarrow> bool" where
  "is_az c = (97 \<le> code_point c \<and> code_point c \<le> 122)"

definition is_host_char :: "char \<Rightarrow> bool" where
  "is_host_char c = (is_az c \<or> is_digit c \<or> c = CHR ''.'' \<or> c = CHR ''-'')"

text \<open>
  \<^verbatim>\<open>\d{1,3}\.\d{1,3}\.\d{1,3}\.\d{1,3}\<close> against a whole string. A digit group holds no dot,
  so the string matches exactly when its four dot-separated pieces are one to three digits
  each.
\<close>

definition digits_1_3 :: "string \<Rightarrow> bool" where
  "digits_1_3 g = (1 \<le> length g \<and> length g \<le> 3 \<and> list_all is_digit g)"

definition ipv4_whole :: "string \<Rightarrow> bool" where
  "ipv4_whole s = (length (split_dots s) = 4 \<and> list_all digits_1_3 (split_dots s))"

text \<open>
  \<^verbatim>\<open>[a-z0-9.-]+\.[a-z]{2,}\<close> against a whole string: some position \<open>i\<close> holds the dot, the
  \<open>i \<ge> 1\<close> characters before it are host characters and the two or more after it are
  letters.
\<close>

definition tld_whole :: "string \<Rightarrow> bool" where
  "tld_whole s = list_ex (\<lambda>i. list_all is_host_char (take i s) \<and> s ! i = CHR ''.'' \<and>
                              2 \<le> length (drop (Suc i) s) \<and> list_all is_az (drop (Suc i) s))
                         [1..<length s]"

text \<open>
  \<^verbatim>\<open>re.match(r'^...$', s)\<close>: without \<^verbatim>\<open>re.MULTILINE\<close>, \<^verbatim>\<open>$\<close> matches at the end of the string
  and also just before a newline that ends the string.
\<close>

definition re_match_to_end :: "(string \<Rightarrow> bool) \<Rightarrow> string \<Rightarrow> bool" where
  "re_match_to_end whole s =
     (whole s \<or> (s \<noteq> [] \<and> last s = CHR 0x0A \<and> whole (butlast s)))"

text \<open>
  \<^verbatim>\<open>
  def is_valid_domain(domain: str) -> bool:
      if not domain or len(domain) > 253:
          return False
      if domain in ("localhost", "127.0.0.1", "0.0.0.0", "::1"):
          return False
      if re.match(r'^\d{1,3}\.\d{1,3}\.\d{1,3}\.\d{1,3}$', domain):
          return False
      if not re.match(r'^[a-z0-9.-]+\.[a-z]{2,}$', domain):
          return False
      return True
  \<close>
\<close>

definition is_valid_domain :: "string \<Rightarrow> bool" where
  "is_valid_domain domain =
     (if domain = [] \<or> 253 < length domain then False
      else if domain \<in> set [''localhost'', ''127.0.0.1'', ''0.0.0.0'', ''::1''] then False
      else if re_match_to_end ipv4_whole domain then False
      else if \<not> re_match_to_end tld_whole domain then False
      else True)"

text \<open>
  \<^verbatim>\<open>
  def unique_sorted(domains: Iterable[str]) -> List[str]:
      normalized = {normalize_domain(d) for d in domains if normalize_domain(d)}
      valid = {d for d in normalized if is_valid_domain(d)}
      return sorted(valid)
  \<close>
\<close>

definition unique_sorted :: "string list \<Rightarrow> string list" where
  "unique_sorted domains =
     (let normalized = normalize_domain ` {d \<in> set domains. normalize_domain d \<noteq> []};
          valid = {d \<in> normalized. is_valid_domain d}
      in sorted_list_of_set valid)"

section \<open>Backoff delays\<close>

text \<open>
  \<^verbatim>\<open>
  def backoff_delays(base: float, max_s: float, attempts: int) -> List[float]:
      delays = []
      cur = base
      for _ in range(max(0, attempts - 1)):
          delays.append(cur)
          cur = min(max_s, cur * 2.0)
      return delays
  \<close>
  Seconds are embedded as \<^typ>\<open>real\<close>: doubling and \<^verbatim>\<open>min\<close> are exact on binary floating
  point numbers below the overflow threshold.
\<close>

fun backoff_loop :: "real \<Rightarrow> nat \<Rightarrow> real \<Rightarrow> real list \<Rightarrow> real list" where
  "backoff_loop max_s 0 cur delays = delays"
| "backoff_loop max_s (Suc n) cur delays =
     backoff_loop max_s n (min max_s (cur * 2)) (delays @ [cur])"

definition backoff_delays :: "real \<Rightarrow> real \<Rightarrow> int \<Rightarrow> real list" where
  "backoff_delays base max_s attempts = backoff_loop max_s (nat (max 0 (attempts - 1))) base []"

section \<open>The outside world\<close>

text \<open>
  What a run does to the outside is kept in a \<open>world\<close>: the number of
  \<^verbatim>\<open>requests.get\<close> calls issued, the number of \<^verbatim>\<open>DDGS().text\<close> searches started, the
  arguments of \<^verbatim>\<open>time.sleep\<close> for backoff and crawl delay in order, the number of rate
  limiter sleeps (their random length is not kept), the log records in order, and the
  text written to the output path.
\<close>

datatype level = INFO | WARNING | ERROR

record world =
  http_calls :: nat
  search_calls :: nat
  sleeps :: "real list"
  limiter_sleeps :: nat
  logged :: "(level \<times> string) list"
  out_file :: "string option"

text \<open>
  The exceptions that leave a function of the script. An exception is kept with the world
  in which it was raised. What is no subclass of \<^verbatim>\<open>Exception\<close> (\<^verbatim>\<open>KeyboardInterrupt\<close>, an
  exit requested by a signal) is outside the model.
\<close>

datatype py_exception =
  ValueError | OverflowError | TypeError | AttributeError | PermissionError | OSError
  | UnicodeEncodeError

text \<open>
  A call of \<^verbatim>\<open>logger.info\<close>, \<^verbatim>\<open>logger.warning\<close> or \<^verbatim>\<open>logger.error\<close>; the \<^verbatim>\<open>extra\<close> fields and
  the interpolated parts of a message are not kept.
\<close>

definition logger_call :: "level \<Rightarrow> string \<Rightarrow> world \<Rightarrow> world" where
  "logger_call lv msg w = w\<lparr>logged := logged w @ [(lv, msg)]\<rparr>"

text \<open>
  The outcome of one \<^verbatim>\<open>requests.get\<close>: a response with its status code and body, one of the
  two network failures the script retries (\<^verbatim>\<open>requests.Timeout\<close> with \<^verbatim>\<open>socket.timeout\<close>, and
  \<^verbatim>\<open>requests.ConnectionError\<close>), or any other exception raised inside the \<^verbatim>\<open>try\<close> block (a
  body that \<^verbatim>\<open>resp.json()\<close> cannot decode included).
\<close>

datatype 'b http_result = Response int 'b | Timeout | ConnectionError | OtherException

record item =
  item_link :: "string option"
  item_formattedUrl :: "string option"

record hit =
  hit_href :: "string option"
  hit_link :: "string option"
  hit_url :: "string option"

text \<open>
  One \<^verbatim>\<open>DDGS().text(keyword, max_results=...)\<close> iteration: the hits it yields, and whether it
  then ends or raises (a failing \<^verbatim>\<open>DDGS()\<close> constructor raises after no hit).
\<close>

datatype search_result = Yields "hit list" | YieldsThenRaises "hit list"

datatype keywords_field = KwMissing | KwNull | KwNotAList | KwList "string list"

text \<open>
  One entry of a provider's mapping in the configuration file, as the constructor reads it
  with \<^verbatim>\<open>int(self.cfg.get(key, default))\<close>, \<^verbatim>\<open>float(self.cfg.get(key, default))\<close> or
  \<^verbatim>\<open>os.getenv(self.cfg.get(key, default), "")\<close>: the key is missing (the default is used),
  or the entry converts to a value, or the conversion raises (\<^verbatim>\<open>int("lots")\<close> is a
  \<^verbatim>\<open>ValueError\<close>, \<^verbatim>\<open>float(None)\<close> and \<^verbatim>\<open>os.getenv(5, "")\<close> are a \<^verbatim>\<open>TypeError\<close>).
\<close>

datatype 'a setting = Missing | Value 'a | Unconvertible py_exception

record raw_provider_cfg =
  raw_enabled :: bool
  raw_daily_quota_threshold :: "int setting"
  raw_rate_limit_rps :: "real setting"
  raw_jitter_percent :: "real setting"
  raw_retry_attempts :: "int setting"
  raw_backoff_base_seconds :: "real setting"
  raw_backoff_max_seconds :: "real setting"
  raw_api_key_env :: "string setting"
  raw_cx_env :: "string setting"

text \<open>
  \<^verbatim>\<open>providers_cfg.get(name, {})\<close>: the provider has no entry, or an entry that is not a
  mapping (\<^verbatim>\<open>null\<close>, a scalar, a list: the following \<^verbatim>\<open>.get("enabled", True)\<close> raises
  \<^verbatim>\<open>AttributeError\<close>), or a mapping. \<open>raw_enabled\<close> is the truth value of
  \<^verbatim>\<open>.get("enabled", True)\<close>. Likewise \<^verbatim>\<open>cfg.get("providers") or {}\<close> is empty (the key is
  missing or its value is falsy), or not a mapping, or a mapping with the two entries.
\<close>

datatype provider_entry = EntryAbsent | EntryNotAMapping | EntryMapping raw_provider_cfg

datatype providers_field =
  ProvidersEmpty | ProvidersNotAMapping | ProvidersMapping provider_entry provider_entry

text \<open>A provider's settings after the defaults and the conversions of
  \<^verbatim>\<open>BaseProvider.__init__\<close> and \<^verbatim>\<open>GoogleCSEProvider.__init__\<close>.\<close>

record provider_cfg =
  cfg_enabled :: bool
  cfg_daily_quota_threshold :: int
  cfg_rate_limit_rps :: real
  cfg_jitter_percent :: real
  cfg_retry_attempts :: int
  cfg_backoff_base_seconds :: real
  cfg_backoff_max_seconds :: real
  cfg_api_key_env :: string
  cfg_cx_env :: string

record raw_config =
  cfg_keywords :: keywords_field
  cfg_providers :: providers_field

text \<open>
  The file at \<^verbatim>\<open>--config\<close>: missing, unreadable or not YAML, a YAML document that is not a
  mapping, or a mapping.
\<close>

datatype config_file = NoSuchFile | NotYaml | YamlNotAMapping | Yaml raw_config

text \<open>What a file system call gives: success, \<^verbatim>\<open>PermissionError\<close>, or another \<^verbatim>\<open>OSError\<close>.\<close>

datatype fs_result = FsOk | FsPermissionError | FsOtherError

text \<open>
  Everything a run reads from outside. \<open>requests_get_google e n\<close> is the outcome of the
  search request issued when \<open>n\<close> HTTP calls have been made before it, and
  \<open>ddgs_text e n\<close> of the search started after \<open>n\<close> earlier ones.
  \<open>parse_crawl_delay e\<close> stands for the script's function of that name (a regular
  expression and \<^verbatim>\<open>float()\<close>), whose parsing is not embedded: every result below holds
  for any function in its place. \<open>sleep_limit e\<close> is the longest duration \<^verbatim>\<open>time.sleep\<close>
  accepts (about 9.2e9 seconds in CPython, which counts nanoseconds in 64 bits).
  \<open>random_uniform e w a b\<close> is what \<^verbatim>\<open>random.uniform(a, b)\<close> returns when called in the
  world \<open>w\<close>. \<open>mkdir_parent e\<close> is the outcome of \<^verbatim>\<open>path.parent.mkdir(parents=True,
  exist_ok=True)\<close>, \<open>write_test_ok e\<close> says whether the \<^verbatim>\<open>.write_test\<close> file can be touched
  and unlinked, \<open>open_output e\<close> is the outcome of \<^verbatim>\<open>args.output.open("w")\<close>, and
  \<open>stdout_prints_arrow e\<close> says whether the standard output can encode the arrow of the
  closing \<^verbatim>\<open>print\<close>.
\<close>

record env =
  os_getenv :: "string \<Rightarrow> string"
  requests_get_google :: "nat \<Rightarrow> item list http_result"
  requests_get_robots :: "string http_result"
  parse_crawl_delay :: "string \<Rightarrow> real option"
  DDGS_present :: bool
  ddgs_text :: "nat \<Rightarrow> search_result"
  config_at_path :: config_file
  sleep_limit :: real
  random_uniform :: "world \<Rightarrow> real \<Rightarrow> real \<Rightarrow> real"
  mkdir_parent :: fs_result
  write_test_ok :: bool
  open_output :: fs_result
  stdout_prints_arrow :: bool

text \<open>
  \<^verbatim>\<open>time.sleep(secs)\<close> raises \<^verbatim>\<open>ValueError\<close> on a negative argument and \<^verbatim>\<open>OverflowError\<close>
  on one above its limit.
\<close>

definition sleep_error :: "env \<Rightarrow> real \<Rightarrow> py_exception option" where
  "sleep_error e secs =
     (if secs < 0 then Some ValueError
      else if sleep_limit e < secs then Some OverflowError
      else None)"

definition time_sleep :: "env \<Rightarrow> real \<Rightarrow> world \<Rightarrow> (py_exception \<times> world) + world" where
  "time_sleep e secs w =
     (case sleep_error e secs of
        Some x \<Rightarrow> Inl (x, w)
      | None \<Rightarrow> Inr (w\<lparr>sleeps := sleeps w @ [secs]\<rparr>))"

section \<open>Robots and rate limiting\<close>

text \<open>
  \<^verbatim>\<open>
  def fetch_robots_and_delay(host, ua=...) -> Tuple[bool, Optional[float]]:
      """Return (allowed, crawl_delay_seconds). If robots fetch fails, default allow=True."""
      try:
          url = f"https://{host}/robots.txt"
          resp = requests.get(url, headers={"User-Agent": ua}, timeout=6)
          if resp.status_code != 200:
              return True, None
          txt = resp.text or ""
          delay = parse_crawl_delay(txt)
          return True, delay
      except Exception:
          return True, None
  \<close>
\<close>

definition fetch_robots_and_delay :: "env \<Rightarrow> string \<Rightarrow> world \<Rightarrow> (bool \<times> real option) \<times> world" where
  "fetch_robots_and_delay e host w =
     (let w1 = w\<lparr>http_calls := http_calls w + 1\<rparr> in
      case requests_get_robots e of
        Response code txt \<Rightarrow>
          if code \<noteq> 200 then ((True, None), w1)
          else ((True, parse_crawl_delay e txt), w1)
      | Timeout \<Rightarrow> ((True, None), w1)
      | ConnectionError \<Rightarrow> ((True, None), w1)
      | OtherException \<Rightarrow> ((True, None), w1))"

text \<open>
  \<^verbatim>\<open>
  def wait(self):
      if self.rps <= 0:
          return
      interval = 1.0 / self.rps
      jitter = interval * (self.jitter_pct / 100.0)
      delay = interval + random.uniform(-jitter, jitter)
      if delay > 0:
          time.sleep(delay)
  \<close>
  A sleep of the rate limiter is counted in \<open>limiter_sleeps\<close>; it raises as every
  \<^verbatim>\<open>time.sleep\<close> does.
\<close>

definition limiter_delay :: "env \<Rightarrow> world \<Rightarrow> real \<Rightarrow> real \<Rightarrow> real" where
  "limiter_delay e w rps jitter_pct =
     (let interval = 1 / rps;
          jitter = interval * (jitter_pct / 100)
      in interval + random_uniform e w (- jitter) jitter)"

definition RateLimiter_wait ::
  "env \<Rightarrow> real \<Rightarrow> real \<Rightarrow> world \<Rightarrow> (py_exception \<times> world) + world"
where
  "RateLimiter_wait e rps jitter_pct w =
     (if rps \<le> 0 then Inr w
      else if 0 < limiter_delay e w rps jitter_pct then
        (case sleep_error e (limiter_delay e w rps jitter_pct) of
           Some x \<Rightarrow> Inl (x, w)
         | None \<Rightarrow> Inr (w\<lparr>limiter_sleeps := limiter_sleeps w + 1\<rparr>))
      else Inr w)"

section \<open>Providers\<close>

record base_provider =
  name :: string
  queries_made :: int
  daily_quota_threshold :: int
  rate_limit_rps :: real
  jitter_percent :: real
  retry_attempts :: int
  backoff_base_seconds :: real
  backoff_max_seconds :: real

record google_cse = base_provider +
  api_key :: string
  cx :: string

record duckduckgo = base_provider +
  ddg_allowed :: bool
  ddg_crawl_delay :: "real option"

text \<open>\<^verbatim>\<open>BaseProvider.can_continue\<close> and \<^verbatim>\<open>BaseProvider._delays\<close>.\<close>

definition can_continue :: "'a base_provider_scheme \<Rightarrow> bool" where
  "can_continue p = (queries_made p < daily_quota_threshold p)"

definition delays_of :: "'a base_provider_scheme \<Rightarrow> real list" where
  "delays_of p = backoff_delays (backoff_base_seconds p) (backoff_max_seconds p) (retry_attempts p)"

text \<open>
  \<^verbatim>\<open>GoogleCSEProvider.__init__\<close>: the fields of \<^verbatim>\<open>BaseProvider.__init__\<close>, the two credentials
  from the environment, and one warning when either is empty.
\<close>

definition has_credentials :: "google_cse \<Rightarrow> bool" where
  "has_credentials p = (api_key p \<noteq> [] \<and> cx p \<noteq> [])"

definition missing_credentials_warning :: "level \<times> string" where
  "missing_credentials_warning =
     (WARNING, ''GoogleCSEProvider missing API key or CX; provider will return empty results.'')"

definition GoogleCSEProvider_init :: "env \<Rightarrow> provider_cfg \<Rightarrow> world \<Rightarrow> google_cse \<times> world" where
  "GoogleCSEProvider_init e cfg w =
     (let p = \<lparr>name = ''google_cse'', queries_made = 0,
               daily_quota_threshold = cfg_daily_quota_threshold cfg,
               rate_limit_rps = cfg_rate_limit_rps cfg,
               jitter_percent = cfg_jitter_percent cfg,
               retry_attempts = cfg_retry_attempts cfg,
               backoff_base_seconds = cfg_backoff_base_seconds cfg,
               backoff_max_seconds = cfg_backoff_max_seconds cfg,
               api_key = os_getenv e (cfg_api_key_env cfg),
               cx = os_getenv e (cfg_cx_env cfg)\<rparr>
      in if has_credentials p then (p, w)
         else (p, logger_call (fst missing_credentials_warning) (snd missing_credentials_warning) w))"

text \<open>
  \<^verbatim>\<open>DuckDuckGoProvider.__init__\<close>: the fields of \<^verbatim>\<open>BaseProvider.__init__\<close>, then
  \<^verbatim>\<open>allowed, delay = fetch_robots_and_delay(self.DDG_HOST, ua=self.ua)\<close>.
\<close>

definition DuckDuckGoProvider_init :: "env \<Rightarrow> provider_cfg \<Rightarrow> world \<Rightarrow> duckduckgo \<times> world" where
  "DuckDuckGoProvider_init e cfg w =
     (case fetch_robots_and_delay e ''duckduckgo.com'' w of
        ((allowed, delay), w1) \<Rightarrow>
          (\<lparr>name = ''duckduckgo'', queries_made = 0,
            daily_quota_threshold = cfg_daily_quota_threshold cfg,
            rate_limit_rps = cfg_rate_limit_rps cfg,
            jitter_percent = cfg_jitter_percent cfg,
            retry_attempts = cfg_retry_attempts cfg,
            backoff_base_seconds = cfg_backoff_base_seconds cfg,
            backoff_max_seconds = cfg_backoff_max_seconds cfg,
            ddg_allowed = allowed, ddg_crawl_delay = delay\<rparr>, w1))"

text \<open>Python's \<^verbatim>\<open>a or b\<close> on optional strings, and the slice \<^verbatim>\<open>results[:n]\<close>.\<close>

definition py_or :: "string option \<Rightarrow> string option \<Rightarrow> string option" where
  "py_or a b = (case a of None \<Rightarrow> b | Some s \<Rightarrow> if s = [] then b else Some s)"

definition slice_to :: "int \<Rightarrow> 'a list \<Rightarrow> 'a list" where
  "slice_to n xs = (if 0 \<le> n then take (nat n) xs else take (length xs - nat (- n)) xs)"

section \<open>The Google Custom Search provider\<close>

text \<open>
  The loop over the items of a 200 response:
  \<^verbatim>\<open>
  for it in items:
      link = it.get("link") or it.get("formattedUrl")
      if not link:
          continue
      results.append(link)
  \<close>
\<close>

fun append_links :: "string list \<Rightarrow> item list \<Rightarrow> string list" where
  "append_links results [] = results"
| "append_links results (it # items) =
     (case py_or (item_link it) (item_formattedUrl it) of
        None \<Rightarrow> append_links results items
      | Some l \<Rightarrow> if l = [] then append_links results items
                  else append_links (results @ [l]) items)"

text \<open>
  The retry loop of one page request, lines 217 to 281 of \<^verbatim>\<open>scripts/discover.py\<close>:
  \<^verbatim>\<open>
  attempt = 0
  while True:
      attempt += 1
      try:
          resp = requests.get(...)
          code = resp.status_code
          if code == 200:
              ... results.append(link) ...; logger.info("google results", ...)
              break
          elif code in (429, 503):
              idx = min(attempt - 1, len(delays) - 1)
              if idx >= 0 and idx < len(delays):
                  time.sleep(delays[idx])
                  continue
              else:
                  logger.warning(f"google backoff exhausted ({code})", ...)
                  break
          else:
              logger.warning("google non-200", ...)
              break
      except (requests.Timeout, requests.ConnectionError, socket.timeout) as e:
          idx = min(attempt - 1, len(delays) - 1)
          if idx >= 0 and idx < len(delays):
              time.sleep(delays[idx])
              continue
          logger.warning("google network error", ...)
          break
      except Exception as e:
          logger.warning("google unknown error", ...)
          break
  \<close>
  \<open>attempt\<close> is the counter before \<^verbatim>\<open>attempt += 1\<close>. The loop has no bound of its own, so
  it is a partial function: \<open>None\<close> is a loop that never ends. An exception of
  \<^verbatim>\<open>time.sleep\<close> inside the \<^verbatim>\<open>try\<close> block is caught by \<^verbatim>\<open>except Exception\<close>; inside the
  handler of the network failures it leaves the loop and the query.
\<close>

partial_function (option) google_attempts ::
  "env \<Rightarrow> real list \<Rightarrow> int \<Rightarrow> string list \<Rightarrow> world
     \<Rightarrow> ((py_exception \<times> world) + string list \<times> world) option"
where
  "google_attempts e delays attempt results w =
     (let attempt = attempt + 1;
          w1 = w\<lparr>http_calls := http_calls w + 1\<rparr>;
          idx = min (attempt - 1) (int (length delays) - 1)
      in case requests_get_google e (http_calls w) of
           Response code items \<Rightarrow>
             if code = 200 then
               Some (Inr (append_links results items, logger_call INFO ''google results'' w1))
             else if code = 429 \<or> code = 503 then
               (if 0 \<le> idx \<and> idx < int (length delays) then
                  (case time_sleep e (delays ! nat idx) w1 of
                     Inl x \<Rightarrow> Some (Inr (results, logger_call WARNING ''google unknown error'' w1))
                   | Inr w2 \<Rightarrow> google_attempts e delays attempt results w2)
                else Some (Inr (results, logger_call WARNING ''google backoff exhausted'' w1)))
             else Some (Inr (results, logger_call WARNING ''google non-200'' w1))
         | Timeout \<Rightarrow>
             if 0 \<le> idx \<and> idx < int (length delays) then
               (case time_sleep e (delays ! nat idx) w1 of
                  Inl x \<Rightarrow> Some (Inl x)
                | Inr w2 \<Rightarrow> google_attempts e delays attempt results w2)
             else Some (Inr (results, logger_call WARNING ''google network error'' w1))
         | ConnectionError \<Rightarrow>
             if 0 \<le> idx \<and> idx < int (length delays) then
               (case time_sleep e (delays ! nat idx) w1 of
                  Inl x \<Rightarrow> Some (Inl x)
                | Inr w2 \<Rightarrow> google_attempts e delays attempt results w2)
             else Some (Inr (results, logger_call WARNING ''google network error'' w1))
         | OtherException \<Rightarrow>
             Some (Inr (results, logger_call WARNING ''google unknown error'' w1)))"

declare google_attempts.simps [code]

text \<open>
  The pagination loop, lines 206 to 285:
  \<^verbatim>\<open>
  while len(results) < max_results and start_index <= 91:
      self._sleep_limiter()
      ... the retry loop ...
      if len(results) >= max_results:
          break
      start_index += per_page
  \<close>
\<close>

function google_pages ::
  "env \<Rightarrow> real list \<Rightarrow> real \<Rightarrow> real \<Rightarrow> int \<Rightarrow> int \<Rightarrow> string list \<Rightarrow> world
     \<Rightarrow> ((py_exception \<times> world) + string list \<times> world) option"
where
  "google_pages e delays rps jitter_pct max_results start_index results w =
     (if int (length results) < max_results \<and> start_index \<le> 91 then
        (case RateLimiter_wait e rps jitter_pct w of
           Inl x \<Rightarrow> Some (Inl x)
         | Inr w0 \<Rightarrow>
             (case google_attempts e delays 0 results w0 of
                None \<Rightarrow> None
              | Some (Inl x) \<Rightarrow> Some (Inl x)
              | Some (Inr (results', w')) \<Rightarrow>
                  if max_results \<le> int (length results') then Some (Inr (results', w'))
                  else google_pages e delays rps jitter_pct max_results (start_index + 10)
                         results' w'))
      else Some (Inr (results, w)))"
  by pat_completeness auto
termination
  by (relation "measure (\<lambda>(e, delays, rps, jitter_pct, max_results, start_index, results, w).
                           nat (101 - start_index))") auto

text \<open>
  \<^verbatim>\<open>
  def query(self, keyword: str, max_results: int) -> List[str]:
      if not self.can_continue():
          return []
      if not (self.api_key and self.cx):
          self.queries_made += 1
          return []
      results = []; per_page = 10; start_index = 1; delays = self._delays()
      ... the pagination loop ...
      self.queries_made += 1
      return results[:max_results]
  \<close>
  The result is the returned list with the provider and the world after the call.
\<close>

definition GoogleCSEProvider_query ::
  "env \<Rightarrow> google_cse \<Rightarrow> string \<Rightarrow> int \<Rightarrow> world
     \<Rightarrow> ((py_exception \<times> world) + string list \<times> google_cse \<times> world) option"
where
  "GoogleCSEProvider_query e p keyword max_results w =
     (if \<not> can_continue p then Some (Inr ([], p, w))
      else if \<not> has_credentials p then
        Some (Inr ([], p\<lparr>queries_made := queries_made p + 1\<rparr>, w))
      else
        (case google_pages e (delays_of p) (rate_limit_rps p) (jitter_percent p)
                max_results 1 [] w of
           None \<Rightarrow> None
         | Some (Inl x) \<Rightarrow> Some (Inl x)
         | Some (Inr (results, w')) \<Rightarrow>
             Some (Inr (slice_to max_results results,
                        p\<lparr>queries_made := queries_made p + 1\<rparr>, w'))))"

section \<open>The DuckDuckGo provider\<close>

text \<open>
  \<^verbatim>\<open>
  for r in ddgs.text(keyword, max_results=max_results):
      url = r.get("href") or r.get("link") or r.get("url")
      if url:
          results.append(url)
  \<close>
\<close>

fun append_urls :: "string list \<Rightarrow> hit list \<Rightarrow> string list" where
  "append_urls results [] = results"
| "append_urls results (r # rs) =
     (case py_or (py_or (hit_href r) (hit_link r)) (hit_url r) of
        None \<Rightarrow> append_urls results rs
      | Some u \<Rightarrow> if u = [] then append_urls results rs
                  else append_urls (results @ [u]) rs)"

text \<open>
  The retry loop, lines 323 to 356:
  \<^verbatim>\<open>
  attempt = 0
  while True:
      attempt += 1
      try:
          with DDGS() as ddgs:
              for r in ddgs.text(keyword, max_results=max_results): ...
          logger.info("ddg results", ...)
          break
      except Exception as e:
          if attempt <= len(delays):
              time.sleep(delays[attempt - 1])
              continue
          logger.warning("ddg error", ...)
          break
  \<close>
  Hits appended before an exception stay in \<open>results\<close>. An exception of \<^verbatim>\<open>time.sleep\<close>
  is raised inside the handler and leaves the query.
\<close>

function ddg_attempts ::
  "env \<Rightarrow> real list \<Rightarrow> int \<Rightarrow> string list \<Rightarrow> world
     \<Rightarrow> (py_exception \<times> world) + string list \<times> world"
where
  "ddg_attempts e delays attempt results w =
     (let attempt = attempt + 1;
          w1 = w\<lparr>search_calls := search_calls w + 1\<rparr>
      in case ddgs_text e (search_calls w) of
           Yields hits \<Rightarrow>
             Inr (append_urls results hits, logger_call INFO ''ddg results'' w1)
         | YieldsThenRaises hits \<Rightarrow>
             if attempt \<le> int (length delays) then
               (case time_sleep e (delays ! nat (attempt - 1)) w1 of
                  Inl x \<Rightarrow> Inl x
                | Inr w2 \<Rightarrow> ddg_attempts e delays attempt (append_urls results hits) w2)
             else Inr (append_urls results hits, logger_call WARNING ''ddg error'' w1))"
  by pat_completeness auto
termination
  by (relation "measure (\<lambda>(e, delays, attempt, results, w). nat (int (length delays) - attempt))")
     auto

text \<open>
  \<^verbatim>\<open>
  def _respect_ddg_delay(self):
      if self.ddg_crawl_delay and self.ddg_crawl_delay > 0:
          time.sleep(self.ddg_crawl_delay)
  \<close>
\<close>

definition respect_ddg_delay ::
  "env \<Rightarrow> duckduckgo \<Rightarrow> world \<Rightarrow> (py_exception \<times> world) + world"
where
  "respect_ddg_delay e p w =
     (case ddg_crawl_delay p of
        None \<Rightarrow> Inr w
      | Some d \<Rightarrow> if d \<noteq> 0 \<and> 0 < d then time_sleep e d w else Inr w)"

text \<open>
  \<^verbatim>\<open>
  def query(self, keyword: str, max_results: int) -> List[str]:
      if not self.can_continue():
          return []
      if DDGS is None:
          logger.warning("duckduckgo_search not available; returning empty.", ...)
          self.queries_made += 1
          return []
      self._sleep_limiter()
      self._respect_ddg_delay()
      results = []; delays = self._delays()
      ... the retry loop ...
      self.queries_made += 1
      return results[:max_results]
  \<close>
\<close>

definition DuckDuckGoProvider_query ::
  "env \<Rightarrow> duckduckgo \<Rightarrow> string \<Rightarrow> int \<Rightarrow> world
     \<Rightarrow> (py_exception \<times> world) + string list \<times> duckduckgo \<times> world"
where
  "DuckDuckGoProvider_query e p keyword max_results w =
     (if \<not> can_continue p then Inr ([], p, w)
      else if \<not> DDGS_present e then
        Inr ([], p\<lparr>queries_made := queries_made p + 1\<rparr>,
             logger_call WARNING ''duckduckgo_search not available; returning empty.'' w)
      else
        (case RateLimiter_wait e (rate_limit_rps p) (jitter_percent p) w of
           Inl x \<Rightarrow> Inl x
         | Inr w0 \<Rightarrow>
             (case respect_ddg_delay e p w0 of
                Inl x \<Rightarrow> Inl x
              | Inr w1 \<Rightarrow>
                  (case ddg_attempts e (delays_of p) 0 [] w1 of
                     Inl x \<Rightarrow> Inl x
                   | Inr (results, w') \<Rightarrow>
                       Inr (slice_to max_results results,
                            p\<lparr>queries_made := queries_made p + 1\<rparr>, w')))))"

section \<open>The orchestrator\<close>

text \<open>
  \<^verbatim>\<open>
  def load_config(path: Path) -> Dict[str, Any]:
      if not path.exists():
          raise FileNotFoundError(f"Config file not found: {path}")
      with path.open("r", encoding="utf-8") as f:
          cfg = yaml.safe_load(f) or {}
      if "keywords" not in cfg or cfg.get("keywords") is None:
          raise ValueError("Config missing 'keywords' field")
      if not isinstance(cfg["keywords"], list):
          raise ValueError("'keywords' must be a list")
      if not cfg["keywords"]:
          raise ValueError("'keywords' list is empty")
      return cfg
  \<close>
\<close>

datatype load_error =
  FileNotFoundError | YAMLError | NotAMapping | KeywordsMissing | KeywordsNotAList | KeywordsEmpty

definition load_config :: "config_file \<Rightarrow> load_error + raw_config" where
  "load_config f =
     (case f of
        NoSuchFile \<Rightarrow> Inl FileNotFoundError
      | NotYaml \<Rightarrow> Inl YAMLError
      | YamlNotAMapping \<Rightarrow> Inl NotAMapping
      | Yaml cfg \<Rightarrow>
          (case cfg_keywords cfg of
             KwMissing \<Rightarrow> Inl KeywordsMissing
           | KwNull \<Rightarrow> Inl KeywordsMissing
           | KwNotAList \<Rightarrow> Inl KeywordsNotAList
           | KwList ks \<Rightarrow> if ks = [] then Inl KeywordsEmpty else Inr cfg))"

text \<open>\<^verbatim>\<open>keywords = cfg.get("keywords") or []\<close>\<close>

definition keywords_of :: "raw_config \<Rightarrow> string list" where
  "keywords_of cfg = (case cfg_keywords cfg of KwList ks \<Rightarrow> ks | _ \<Rightarrow> [])"

datatype provider = Google google_cse | DDG duckduckgo

fun provider_can_continue :: "provider \<Rightarrow> bool" where
  "provider_can_continue (Google p) = can_continue p"
| "provider_can_continue (DDG p) = can_continue p"

fun provider_queries_made :: "provider \<Rightarrow> int" where
  "provider_queries_made (Google p) = queries_made p"
| "provider_queries_made (DDG p) = queries_made p"

fun provider_quota :: "provider \<Rightarrow> int" where
  "provider_quota (Google p) = daily_quota_threshold p"
| "provider_quota (DDG p) = daily_quota_threshold p"

text \<open>\<^verbatim>\<open>prov.query(kw, max_results=args.max_results)\<close>, dispatched on the provider's class.\<close>

fun provider_query ::
  "env \<Rightarrow> provider \<Rightarrow> string \<Rightarrow> int \<Rightarrow> world
     \<Rightarrow> ((py_exception \<times> world) + string list \<times> provider \<times> world) option"
where
  "provider_query e (Google p) kw max_results w =
     (case GoogleCSEProvider_query e p kw max_results w of
        None \<Rightarrow> None
      | Some (Inl x) \<Rightarrow> Some (Inl x)
      | Some (Inr (res, p', w')) \<Rightarrow> Some (Inr (res, Google p', w')))"
| "provider_query e (DDG p) kw max_results w =
     (case DuckDuckGoProvider_query e p kw max_results w of
        Inl x \<Rightarrow> Some (Inl x)
      | Inr (res, p', w') \<Rightarrow> Some (Inr (res, DDG p', w')))"

text \<open>
  The two loops of \<^verbatim>\<open>main\<close>, lines 451 to 462:
  \<^verbatim>\<open>
  for kw in keywords:
      for prov in providers:
          if not prov.can_continue():
              logger.info(f"{prov.name} quota reached; skipping", ...)
              continue
          res = prov.query(kw, max_results=args.max_results)
          nd = unique_sorted(res)
          all_domains.update(nd)
          ...
  \<close>
  The provider objects are mutated in place: the inner loop returns the providers as they
  are after the keyword. The \<^verbatim>\<open>provider_usage\<close> dictionary, read by the summary record only,
  is not kept.
\<close>

fun for_providers ::
  "env \<Rightarrow> string \<Rightarrow> int \<Rightarrow> provider list \<Rightarrow> string set \<Rightarrow> world
     \<Rightarrow> ((py_exception \<times> world) + provider list \<times> string set \<times> world) option"
where
  "for_providers e kw max_results [] all_domains w = Some (Inr ([], all_domains, w))"
| "for_providers e kw max_results (prov # rest) all_domains w =
     (if \<not> provider_can_continue prov then
        (case for_providers e kw max_results rest all_domains
                (logger_call INFO ''quota reached; skipping'' w) of
           None \<Rightarrow> None
         | Some (Inl x) \<Rightarrow> Some (Inl x)
         | Some (Inr (rest', all', w')) \<Rightarrow> Some (Inr (prov # rest', all', w')))
      else
        (case provider_query e prov kw max_results w of
           None \<Rightarrow> None
         | Some (Inl x) \<Rightarrow> Some (Inl x)
         | Some (Inr (res, prov', w1)) \<Rightarrow>
             (case for_providers e kw max_results rest
                     (all_domains \<union> set (unique_sorted res)) w1 of
                None \<Rightarrow> None
              | Some (Inl x) \<Rightarrow> Some (Inl x)
              | Some (Inr (rest', all', w')) \<Rightarrow> Some (Inr (prov' # rest', all', w')))))"

fun for_keywords ::
  "env \<Rightarrow> int \<Rightarrow> string list \<Rightarrow> provider list \<Rightarrow> string set \<Rightarrow> world
     \<Rightarrow> ((py_exception \<times> world) + provider list \<times> string set \<times> world) option"
where
  "for_keywords e max_results [] providers all_domains w = Some (Inr (providers, all_domains, w))"
| "for_keywords e max_results (kw # kws) providers all_domains w =
     (case for_providers e kw max_results providers all_domains w of
        None \<Rightarrow> None
      | Some (Inl x) \<Rightarrow> Some (Inl x)
      | Some (Inr (providers', all', w')) \<Rightarrow> for_keywords e max_results kws providers' all' w')"

text \<open>The command line: \<^verbatim>\<open>--provider\<close>, \<^verbatim>\<open>--max-results\<close> and \<^verbatim>\<open>--dry-run\<close>.\<close>

datatype provider_choice = OnlyGoogle | OnlyDuckDuckGo | AllProviders

record args =
  arg_provider :: provider_choice
  arg_max_results :: int
  arg_dry_run :: bool

text \<open>
  The settings a constructor reads, in the order of \<^verbatim>\<open>BaseProvider.__init__\<close> (lines 160
  to 167) and \<^verbatim>\<open>GoogleCSEProvider.__init__\<close> (lines 186 and 187). Every conversion comes
  before the constructor touches the outside, and the first one that raises ends the
  construction.
\<close>

definition converted :: "'a \<Rightarrow> 'a setting \<Rightarrow> py_exception + 'a" where
  "converted dflt s =
     (case s of Missing \<Rightarrow> Inr dflt | Value v \<Rightarrow> Inr v | Unconvertible x \<Rightarrow> Inl x)"

definition BaseProvider_settings :: "raw_provider_cfg \<Rightarrow> py_exception + provider_cfg" where
  "BaseProvider_settings raw =
     (case converted (10 ^ 9) (raw_daily_quota_threshold raw) of
        Inl x \<Rightarrow> Inl x
      | Inr quota \<Rightarrow>
     (case converted 0.5 (raw_rate_limit_rps raw) of
        Inl x \<Rightarrow> Inl x
      | Inr rps \<Rightarrow>
     (case converted 20 (raw_jitter_percent raw) of
        Inl x \<Rightarrow> Inl x
      | Inr jitter \<Rightarrow>
     (case converted 3 (raw_retry_attempts raw) of
        Inl x \<Rightarrow> Inl x
      | Inr attempts \<Rightarrow>
     (case converted 0.5 (raw_backoff_base_seconds raw) of
        Inl x \<Rightarrow> Inl x
      | Inr base \<Rightarrow>
     (case converted 8 (raw_backoff_max_seconds raw) of
        Inl x \<Rightarrow> Inl x
      | Inr max_s \<Rightarrow>
          Inr \<lparr>cfg_enabled = raw_enabled raw, cfg_daily_quota_threshold = quota,
               cfg_rate_limit_rps = rps, cfg_jitter_percent = jitter,
               cfg_retry_attempts = attempts, cfg_backoff_base_seconds = base,
               cfg_backoff_max_seconds = max_s,
               cfg_api_key_env = ''GOOGLE_API_KEY'', cfg_cx_env = ''GOOGLE_CSE_ID''\<rparr>))))))"

definition GoogleCSEProvider_settings :: "raw_provider_cfg \<Rightarrow> py_exception + provider_cfg" where
  "GoogleCSEProvider_settings raw =
     (case BaseProvider_settings raw of
        Inl x \<Rightarrow> Inl x
      | Inr cfg \<Rightarrow>
     (case converted ''GOOGLE_API_KEY'' (raw_api_key_env raw) of
        Inl x \<Rightarrow> Inl x
      | Inr key_env \<Rightarrow>
     (case converted ''GOOGLE_CSE_ID'' (raw_cx_env raw) of
        Inl x \<Rightarrow> Inl x
      | Inr cx_env \<Rightarrow> Inr (cfg\<lparr>cfg_api_key_env := key_env, cfg_cx_env := cx_env\<rparr>))))"

text \<open>The mapping \<^verbatim>\<open>{}\<close>, and \<^verbatim>\<open>providers_cfg.get(name, {})\<close> for the two names.\<close>

definition no_settings :: raw_provider_cfg where
  "no_settings = \<lparr>raw_enabled = True, raw_daily_quota_threshold = Missing,
                  raw_rate_limit_rps = Missing, raw_jitter_percent = Missing,
                  raw_retry_attempts = Missing, raw_backoff_base_seconds = Missing,
                  raw_backoff_max_seconds = Missing, raw_api_key_env = Missing,
                  raw_cx_env = Missing\<rparr>"

definition google_entry :: "providers_field \<Rightarrow> provider_entry" where
  "google_entry ps =
     (case ps of
        ProvidersEmpty \<Rightarrow> EntryAbsent
      | ProvidersNotAMapping \<Rightarrow> EntryNotAMapping
      | ProvidersMapping g d \<Rightarrow> g)"

definition duckduckgo_entry :: "providers_field \<Rightarrow> provider_entry" where
  "duckduckgo_entry ps =
     (case ps of
        ProvidersEmpty \<Rightarrow> EntryAbsent
      | ProvidersNotAMapping \<Rightarrow> EntryNotAMapping
      | ProvidersMapping g d \<Rightarrow> d)"

definition mapping_of :: "provider_entry \<Rightarrow> py_exception + raw_provider_cfg" where
  "mapping_of en =
     (case en of
        EntryAbsent \<Rightarrow> Inr no_settings
      | EntryNotAMapping \<Rightarrow> Inl AttributeError
      | EntryMapping raw \<Rightarrow> Inr raw)"

text \<open>
  Lines 414 to 418:
  \<^verbatim>\<open>
  providers: List[BaseProvider] = []
  if args.provider in ("google", "all") and (providers_cfg.get("google_cse", {}).get("enabled", True)):
      providers.append(GoogleCSEProvider(providers_cfg.get("google_cse", {})))
  if args.provider in ("duckduckgo", "all") and (providers_cfg.get("duckduckgo", {}).get("enabled", True)):
      providers.append(DuckDuckGoProvider(providers_cfg.get("duckduckgo", {})))
  \<close>
  One definition for each \<^verbatim>\<open>if\<close> statement. Nothing here is inside a \<^verbatim>\<open>try\<close>: an entry that
  is not a mapping and a setting that does not convert raise out of \<^verbatim>\<open>main\<close>.
\<close>

definition append_google ::
  "env \<Rightarrow> args \<Rightarrow> raw_config \<Rightarrow> provider list \<Rightarrow> world
     \<Rightarrow> (py_exception \<times> world) + (provider list \<times> world)"
where
  "append_google e a cfg providers w =
     (if arg_provider a = OnlyGoogle \<or> arg_provider a = AllProviders then
        (case mapping_of (google_entry (cfg_providers cfg)) of
           Inl x \<Rightarrow> Inl (x, w)
         | Inr raw \<Rightarrow>
             if raw_enabled raw then
               (case GoogleCSEProvider_settings raw of
                  Inl x \<Rightarrow> Inl (x, w)
                | Inr settings \<Rightarrow>
                    (case GoogleCSEProvider_init e settings w of
                       (g, w') \<Rightarrow> Inr (providers @ [Google g], w')))
             else Inr (providers, w))
      else Inr (providers, w))"

definition append_duckduckgo ::
  "env \<Rightarrow> args \<Rightarrow> raw_config \<Rightarrow> provider list \<Rightarrow> world
     \<Rightarrow> (py_exception \<times> world) + (provider list \<times> world)"
where
  "append_duckduckgo e a cfg providers w =
     (if arg_provider a = OnlyDuckDuckGo \<or> arg_provider a = AllProviders then
        (case mapping_of (duckduckgo_entry (cfg_providers cfg)) of
           Inl x \<Rightarrow> Inl (x, w)
         | Inr raw \<Rightarrow>
             if raw_enabled raw then
               (case BaseProvider_settings raw of
                  Inl x \<Rightarrow> Inl (x, w)
                | Inr settings \<Rightarrow>
                    (case DuckDuckGoProvider_init e settings w of
                       (d, w') \<Rightarrow> Inr (providers @ [DDG d], w')))
             else Inr (providers, w))
      else Inr (providers, w))"

definition build_providers ::
  "env \<Rightarrow> args \<Rightarrow> raw_config \<Rightarrow> world \<Rightarrow> (py_exception \<times> world) + (provider list \<times> world)"
where
  "build_providers e a cfg w =
     (case append_google e a cfg [] w of
        Inl x \<Rightarrow> Inl x
      | Inr (providers, w1) \<Rightarrow> append_duckduckgo e a cfg providers w1)"

text \<open>
  The dry-run report, lines 427 to 437:
  \<^verbatim>\<open>
  for prov in providers:
      if isinstance(prov, GoogleCSEProvider):
          if not (prov.api_key and prov.cx):
              logger.error("Google CSE: missing credentials (GOOGLE_API_KEY or GOOGLE_CSE_ID)")
          else:
              logger.info("Google CSE: credentials present")
      elif isinstance(prov, DuckDuckGoProvider):
          if DDGS is None:
              logger.warning("DuckDuckGo: duckduckgo_search library not installed")
          else:
              logger.info("DuckDuckGo: library available")
  \<close>
\<close>

fun dry_run_line :: "env \<Rightarrow> provider \<Rightarrow> level \<times> string" where
  "dry_run_line e (Google p) =
     (if \<not> has_credentials p
      then (ERROR, ''Google CSE: missing credentials (GOOGLE_API_KEY or GOOGLE_CSE_ID)'')
      else (INFO, ''Google CSE: credentials present''))"
| "dry_run_line e (DDG p) =
     (if \<not> DDGS_present e
      then (WARNING, ''DuckDuckGo: duckduckgo_search library not installed'')
      else (INFO, ''DuckDuckGo: library available''))"

fun dry_run_report :: "env \<Rightarrow> provider list \<Rightarrow> world \<Rightarrow> world" where
  "dry_run_report e [] w = w"
| "dry_run_report e (prov # rest) w =
     dry_run_report e rest
       (logger_call (fst (dry_run_line e prov)) (snd (dry_run_line e prov)) w)"

text \<open>
  \<^verbatim>\<open>
  def ensure_writable(path: Path) -> None:
      path.parent.mkdir(parents=True, exist_ok=True)
      test_file = path.parent / ".write_test"
      try:
          test_file.touch()
          test_file.unlink()
      except Exception as e:
          raise PermissionError(f"Cannot write to {path.parent}: {e}")
  \<close>
  The \<^verbatim>\<open>mkdir\<close> is outside the \<^verbatim>\<open>try\<close>: what it raises leaves the function as it is.
\<close>

definition ensure_writable :: "env \<Rightarrow> py_exception + unit" where
  "ensure_writable e =
     (case mkdir_parent e of
        FsPermissionError \<Rightarrow> Inl PermissionError
      | FsOtherError \<Rightarrow> Inl OSError
      | FsOk \<Rightarrow> if write_test_ok e then Inr () else Inl PermissionError)"

text \<open>
  How a run ends: \<^verbatim>\<open>sys.exit(code)\<close>, the return of \<^verbatim>\<open>main\<close> (exit status 0), or an exception
  nothing catches (exit status 1), each with the world it leaves. \<open>None\<close> is a run that
  never ends.
\<close>

datatype ending = Exits int world | Returns world | Raises py_exception world

fun exit_status :: "ending \<Rightarrow> int" where
  "exit_status (Exits code w) = code"
| "exit_status (Returns w) = 0"
| "exit_status (Raises x w) = 1"

text \<open>The lines written to the output path: \<^verbatim>\<open>for d in out_list: f.write(d + "\n")\<close>.\<close>

definition write_lines :: "string list \<Rightarrow> string" where
  "write_lines out_list = concat (map (\<lambda>d. d @ [CHR 0x0A]) out_list)"

text \<open>
  \<^verbatim>\<open>main\<close>, lines 405 to 480: load the configuration (exit 2 on any exception), build the
  providers (an exception leaves \<^verbatim>\<open>main\<close>; exit 3 when there is none), the dry run (exit 0),
  the writability check (exit 4 on \<^verbatim>\<open>PermissionError\<close>, the only exception caught there),
  the two loops (an exception of a query leaves \<^verbatim>\<open>main\<close>), then
  \<^verbatim>\<open>out_list = sorted(all_domains)\<close> written line by line after \<^verbatim>\<open>open("w")\<close> (the second
  \<^verbatim>\<open>mkdir\<close> succeeds as the first did; a failing \<^verbatim>\<open>open\<close> leaves \<^verbatim>\<open>main\<close> with nothing
  written), the summary record and the closing \<^verbatim>\<open>print\<close>, whose arrow a standard output
  with a narrow encoding cannot encode.
\<close>

definition main :: "env \<Rightarrow> args \<Rightarrow> world \<Rightarrow> ending option" where
  "main e a w =
     (case load_config (config_at_path e) of
        Inl err \<Rightarrow> Some (Exits 2 (logger_call ERROR ''Config load failed'' w))
      | Inr cfg \<Rightarrow>
          (case build_providers e a cfg w of
             Inl (x, wx) \<Rightarrow> Some (Raises x wx)
           | Inr (providers, w1) \<Rightarrow>
               if providers = [] then
                 Some (Exits 3 (logger_call ERROR ''No providers enabled/selected'' w1))
               else if arg_dry_run a then
                 Some (Exits 0
                   (logger_call INFO ''Config valid''
                     (dry_run_report e providers
                       (logger_call INFO ''Dry-run: validating providers...'' w1))))
               else
                 (case ensure_writable e of
                    Inl x \<Rightarrow>
                      if x = PermissionError
                      then Some (Exits 4 (logger_call ERROR ''Output not writable'' w1))
                      else Some (Raises x w1)
                  | Inr u \<Rightarrow>
                      (case for_keywords e (arg_max_results a) (keywords_of cfg) providers {} w1 of
                         None \<Rightarrow> None
                       | Some (Inl (x, wx)) \<Rightarrow> Some (Raises x wx)
                       | Some (Inr (providers', all_domains, w2)) \<Rightarrow>
                           (case open_output e of
                              FsPermissionError \<Rightarrow> Some (Raises PermissionError w2)
                            | FsOtherError \<Rightarrow> Some (Raises OSError w2)
                            | FsOk \<Rightarrow>
                                if stdout_prints_arrow e then
                                  Some (Returns
                                    (logger_call INFO ''discovery summary''
                                      (w2\<lparr>out_file :=
                                            Some (write_lines (sorted_list_of_set all_domains))\<rparr>)))
                                else
                                  Some (Raises UnicodeEncodeError
                                    (logger_call INFO ''discovery summary''
                                      (w2\<lparr>out_file :=
                                            Some (write_lines (sorted_list_of_set all_domains))\<rparr>))))))))"

text \<open>The equations of the two bounded loops are unfolded by hand, one round at a time.\<close>

declare google_pages.simps [simp del]
declare ddg_attempts.simps [simp del]

section \<open>The normalisation steps as the specification words them\<close>








text \<open>
  The outcomes after which the retry loop of a page request sleeps and tries again:
  HTTP 429, HTTP 503, a timeout, a connection error.
\<close>

definition retryable :: "'b http_result \<Rightarrow> bool" where
  "retryable r =
     (case r of
        Response code body \<Rightarrow> code = 429 \<or> code = 503
      | Timeout \<Rightarrow> True
      | ConnectionError \<Rightarrow> True
      | OtherException \<Rightarrow> False)"

section \<open>Example inputs\<close>

text \<open>A world in which nothing has happened yet.\<close>

definition world0 :: world where
  "world0 = \<lparr>http_calls = 0, search_calls = 0, sleeps = [], limiter_sleeps = 0,
             logged = [], out_file = None\<rparr>"

text \<open>The defaults of \<^verbatim>\<open>BaseProvider.__init__\<close> and of the two \<^verbatim>\<open>os.getenv\<close> names.\<close>

definition default_cfg :: provider_cfg where
  "default_cfg = \<lparr>cfg_enabled = True, cfg_daily_quota_threshold = 10 ^ 9,
                  cfg_rate_limit_rps = 0.5, cfg_jitter_percent = 20, cfg_retry_attempts = 3,
                  cfg_backoff_base_seconds = 0.5, cfg_backoff_max_seconds = 8,
                  cfg_api_key_env = ''GOOGLE_API_KEY'', cfg_cx_env = ''GOOGLE_CSE_ID''\<rparr>"

text \<open>
  An outside that answers every search request with an empty 200 response, has both
  credentials, no robots.txt, the search library, a configuration with one keyword and
  both providers on their defaults, CPython's sleep limit, a random source that draws the
  middle of the interval, and a writable output path.
\<close>

definition env0 :: env where
  "env0 = \<lparr>os_getenv = (\<lambda>v. if v = ''GOOGLE_API_KEY'' then ''key''
                            else if v = ''GOOGLE_CSE_ID'' then ''cx'' else []),
           requests_get_google = (\<lambda>n. Response 200 []),
           requests_get_robots = Response 404 [],
           parse_crawl_delay = (\<lambda>txt. None),
           DDGS_present = True,
           ddgs_text = (\<lambda>n. Yields []),
           config_at_path = Yaml \<lparr>cfg_keywords = KwList [''plumber austin''],
                                 cfg_providers = ProvidersEmpty\<rparr>,
           sleep_limit = 2 ^ 63 / 10 ^ 9,
           random_uniform = (\<lambda>w a b. (a + b) / 2),
           mkdir_parent = FsOk,
           write_test_ok = True,
           open_output = FsOk,
           stdout_prints_arrow = True\<rparr>"

text \<open>The search API answers 429 to every request; and to the first five only.\<close>

definition env_always_429 :: env where
  "env_always_429 = env0\<lparr>requests_get_google := (\<lambda>n. Response 429 [])\<rparr>"

definition env_429_five_times :: env where
  "env_429_five_times =
     env0\<lparr>requests_get_google :=
            (\<lambda>n. if n < 5 then Response 429 []
                  else Response 200 [\<lparr>item_link = Some ''https://example.com/a'',
                                      item_formattedUrl = None\<rparr>])\<rparr>"

text \<open>The search library raises on every call.\<close>

definition env_search_always_raises :: env where
  "env_search_always_raises = env0\<lparr>ddgs_text := (\<lambda>n. YieldsThenRaises [])\<rparr>"

text \<open>No credential in the environment.\<close>

definition env_no_credentials :: env where
  "env_no_credentials = env0\<lparr>os_getenv := (\<lambda>v. [])\<rparr>"

text \<open>The Google provider built from the defaults, with and without credentials.\<close>

definition google_default :: google_cse where
  "google_default = fst (GoogleCSEProvider_init env0 default_cfg world0)"

definition google_no_credentials :: google_cse where
  "google_no_credentials = fst (GoogleCSEProvider_init env_no_credentials default_cfg world0)"

text \<open>Providers whose quota is used up from the start (\<^verbatim>\<open>daily_quota_threshold: 0\<close>).\<close>

definition google_exhausted :: google_cse where
  "google_exhausted =
     fst (GoogleCSEProvider_init env0 (default_cfg\<lparr>cfg_daily_quota_threshold := 0\<rparr>) world0)"

definition ddg_default :: duckduckgo where
  "ddg_default = fst (DuckDuckGoProvider_init env0 default_cfg world0)"

definition ddg_exhausted :: duckduckgo where
  "ddg_exhausted =
     fst (DuckDuckGoProvider_init env0 (default_cfg\<lparr>cfg_daily_quota_threshold := 0\<rparr>) world0)"

text \<open>
  The end-to-end example of the specification: one keyword, only DuckDuckGo enabled, a
  search backend that returns three URLs of which one is \<^verbatim>\<open>localhost\<close>.
\<close>

definition env_end_to_end :: env where
  "env_end_to_end =
     env0\<lparr>ddgs_text :=
            (\<lambda>n. Yields [\<lparr>hit_href = Some ''https://www.zeta-plumbing.com/contact'',
                            hit_link = None, hit_url = None\<rparr>,
                          \<lparr>hit_href = Some ''http://localhost:8000/'',
                            hit_link = None, hit_url = None\<rparr>,
                          \<lparr>hit_href = None, hit_link = None,
                            hit_url = Some ''http://Austin-Pipes.org''\<rparr>]),
          config_at_path :=
            Yaml \<lparr>cfg_keywords = KwList [''plumber austin''],
                  cfg_providers =
                    ProvidersMapping (EntryMapping (no_settings\<lparr>raw_enabled := False\<rparr>))
                                     EntryAbsent\<rparr>\<rparr>"

text \<open>
  Two hits for the same host, the second with a newline between the host and the path.
\<close>

definition env_newline_hit :: env where
  "env_newline_hit =
     env_end_to_end\<lparr>ddgs_text :=
       (\<lambda>n. Yields [\<lparr>hit_href = Some ''http://a.com/x'', hit_link = None, hit_url = None\<rparr>,
                     \<lparr>hit_href = Some (''http://a.com'' @ [CHR 0x0A] @ ''/y''),
                       hit_link = None, hit_url = None\<rparr>])\<rparr>"

text \<open>
  A configuration whose Google entry holds \<^verbatim>\<open>daily_quota_threshold: lots\<close>, and one whose
  \<^verbatim>\<open>providers\<close> value is a list.
\<close>

definition env_bad_setting :: env where
  "env_bad_setting =
     env0\<lparr>config_at_path :=
            Yaml \<lparr>cfg_keywords = KwList [''plumber austin''],
                  cfg_providers =
                    ProvidersMapping
                      (EntryMapping
                         (no_settings\<lparr>raw_daily_quota_threshold := Unconvertible ValueError\<rparr>))
                      EntryAbsent\<rparr>\<rparr>"

definition env_providers_list :: env where
  "env_providers_list =
     env0\<lparr>config_at_path :=
            Yaml \<lparr>cfg_keywords = KwList [''plumber austin''],
                  cfg_providers = ProvidersNotAMapping\<rparr>\<rparr>"

text \<open>A robots.txt that asks for a crawl delay longer than \<^verbatim>\<open>time.sleep\<close> accepts.\<close>

definition ddg_long_crawl_delay :: duckduckgo where
  "ddg_long_crawl_delay = ddg_default\<lparr>ddg_crawl_delay := Some (10 ^ 10)\<rparr>"

definition args_run :: args where
  "args_run = \<lparr>arg_provider = AllProviders, arg_max_results = 100, arg_dry_run = False\<rparr>"

definition args_dry_run :: args where
  "args_dry_run = \<lparr>arg_provider = AllProviders, arg_max_results = 100, arg_dry_run = True\<rparr>"

section \<open>Backoff delays: the sequence\<close>

lemma backoff_loop_append: "backoff_loop m n cur ds = ds @ backoff_loop m n cur []"
proof (induction n arbitrary: cur ds)
  case 0
  show ?case by simp
next
  case (Suc n)
  have "backoff_loop m (Suc n) cur ds = backoff_loop m n (min m (cur * 2)) (ds @ [cur])"
    by simp
  also have "\<dots> = (ds @ [cur]) @ backoff_loop m n (min m (cur * 2)) []"
    by (rule Suc.IH)
  also have "\<dots> = ds @ backoff_loop m n (min m (cur * 2)) ([] @ [cur])"
    using Suc.IH[of "min m (cur * 2)" "[] @ [cur]"] by simp
  finally show ?case by simp
qed

lemma backoff_loop_Suc:
  "backoff_loop m (Suc n) cur [] = cur # backoff_loop m n (min m (cur * 2)) []"
  using backoff_loop_append[of m n "min m (cur * 2)" "[cur]"] by simp

lemma length_backoff_loop: "length (backoff_loop m n cur []) = n"
  by (induction n arbitrary: cur) (simp_all add: backoff_loop_Suc del: backoff_loop.simps(2))

lemma backoff_loop_nth_0: "0 < n \<Longrightarrow> backoff_loop m n cur [] ! 0 = cur"
  by (cases n) (simp_all add: backoff_loop_Suc del: backoff_loop.simps(2))

lemma backoff_loop_nth_step:
  "Suc k < n \<Longrightarrow> backoff_loop m n cur [] ! Suc k = min m (2 * (backoff_loop m n cur [] ! k))"
proof (induction n arbitrary: cur k)
  case 0
  then show ?case by simp
next
  case (Suc n)
  show ?case
  proof (cases k)
    case 0
    with Suc.prems obtain n' where "n = Suc n'" by (cases n) auto
    then show ?thesis
      using 0 by (simp add: backoff_loop_Suc mult.commute del: backoff_loop.simps(2))
  next
    case (Suc k')
    then show ?thesis
      using Suc.prems Suc.IH[of k' "min m (cur * 2)"]
      by (simp add: backoff_loop_Suc del: backoff_loop.simps(2))
  qed
qed

lemma backoff_loop_closed:
  "0 \<le> m \<Longrightarrow> k < n \<Longrightarrow>
     backoff_loop m n cur [] ! k = (if k = 0 then cur else min m (cur * 2 ^ k))"
proof (induction k)
  case 0
  then show ?case by (simp add: backoff_loop_nth_0)
next
  case (Suc k)
  then have step: "backoff_loop m n cur [] ! Suc k = min m (2 * (backoff_loop m n cur [] ! k))"
    by (simp add: backoff_loop_nth_step)
  show ?case
  proof (cases "k = 0")
    case True
    then show ?thesis using step Suc by (simp add: backoff_loop_nth_0 mult.commute)
  next
    case False
    then have "backoff_loop m n cur [] ! k = min m (cur * 2 ^ k)" using Suc by simp
    then show ?thesis using step \<open>0 \<le> m\<close> by (auto simp: min_def)
  qed
qed

lemma length_backoff_delays:
  "length (backoff_delays base max_s attempts) = nat (max 0 (attempts - 1))"
  by (simp add: backoff_delays_def length_backoff_loop)

text \<open>
  Claim C5. \<open>backoff_delays base max_s attempts\<close> has \<open>attempts - 1\<close> elements (none when
  \<open>attempts\<close> is below 1). They double from \<open>base\<close> under the ceiling \<open>max_s\<close>: the first is
  \<open>base\<close> and each later one is the smaller of \<open>max_s\<close> and twice its predecessor, which
  for a ceiling that is not negative is \<open>min max_s (base * 2 ^ k)\<close> at position \<open>k\<close>.
  \<open>backoff_delays 0.5 8.0 5\<close> is \<open>[0.5, 1.0, 2.0, 4.0]\<close>.
\<close>

theorem backoff_delays_doubling_with_ceiling:
  "int (length (backoff_delays base max_s attempts)) = max 0 (attempts - 1)
   \<and> (\<forall>k. k < length (backoff_delays base max_s attempts) \<longrightarrow>
          backoff_delays base max_s attempts ! k =
            (if k = 0 then base
             else min max_s (2 * (backoff_delays base max_s attempts ! (k - 1)))))
   \<and> (0 \<le> max_s \<longrightarrow>
        (\<forall>k. k < length (backoff_delays base max_s attempts) \<longrightarrow>
           backoff_delays base max_s attempts ! k =
             (if k = 0 then base else min max_s (base * 2 ^ k))))
   \<and> backoff_delays 0.5 8.0 5 = [0.5, 1.0, 2.0, 4.0]"
proof (intro conjI allI impI)
  show "int (length (backoff_delays base max_s attempts)) = max 0 (attempts - 1)"
    by (simp add: length_backoff_delays)
next
  fix k assume "k < length (backoff_delays base max_s attempts)"
  then have k: "k < nat (max 0 (attempts - 1))"
    by (simp add: length_backoff_delays)
  show "backoff_delays base max_s attempts ! k =
          (if k = 0 then base
           else min max_s (2 * (backoff_delays base max_s attempts ! (k - 1))))"
  proof (cases k)
    case 0
    then show ?thesis using k by (simp add: backoff_delays_def backoff_loop_nth_0)
  next
    case (Suc j)
    then show ?thesis
      using k backoff_loop_nth_step[of j "nat (max 0 (attempts - 1))" max_s base]
      by (simp add: backoff_delays_def)
  qed
next
  fix k assume m: "0 \<le> max_s" and "k < length (backoff_delays base max_s attempts)"
  then have k: "k < nat (max 0 (attempts - 1))"
    by (simp add: length_backoff_delays)
  show "backoff_delays base max_s attempts ! k =
          (if k = 0 then base else min max_s (base * 2 ^ k))"
    unfolding backoff_delays_def by (rule backoff_loop_closed[OF m k])
next
  show "backoff_delays 0.5 8.0 5 = [0.5, 1.0, 2.0, 4.0]"
    by code_simp
qed

theorem backoff_delays_doubling_with_ceiling_witness:
  "(0::real) \<le> 8 \<and> (3::nat) < length (backoff_delays 0.5 8 5)
   \<and> length (backoff_delays 0.5 8 5) = 4
   \<and> backoff_delays 0.5 8 5 ! 3 = min 8 (2 * (backoff_delays 0.5 8 5 ! 2))
   \<and> backoff_delays 0.5 8 5 ! 3 = min 8 (0.5 * 2 ^ 3)
   \<and> backoff_delays 0.5 8 5 ! 3 = 4"
  using backoff_delays_doubling_with_ceiling [of "0.5" 8 5] by simp

section \<open>Robots permission\<close>

text \<open>
  Claim C10. Whatever the robots.txt request gives (a 200 response, another status, an
  exception), the first component of \<open>fetch_robots_and_delay\<close> is \<open>True\<close>; so the
  \<open>ddg_allowed\<close> field of a constructed DuckDuckGo provider is \<open>True\<close>. A query never reads
  the field: with either value in it the query returns the same list and the same world,
  and hands the field back unchanged.
\<close>

theorem robots_allowed_is_always_true:
  "fst (fst (fetch_robots_and_delay e host w)) = True
   \<and> ddg_allowed (fst (DuckDuckGoProvider_init e cfg w)) = True
   \<and> DuckDuckGoProvider_query e (p\<lparr>ddg_allowed := b\<rparr>) kw max_results w =
       map_sum id (\<lambda>(res, p', w'). (res, p'\<lparr>ddg_allowed := b\<rparr>, w'))
         (DuckDuckGoProvider_query e p kw max_results w)"
proof (intro conjI)
  show allowed: "fst (fst (fetch_robots_and_delay e host w)) = True" for host
    by (simp add: fetch_robots_and_delay_def Let_def split: http_result.splits)
  show "ddg_allowed (fst (DuckDuckGoProvider_init e cfg w)) = True"
    using allowed[of "''duckduckgo.com''"]
    by (cases "fetch_robots_and_delay e ''duckduckgo.com'' w")
       (auto simp: DuckDuckGoProvider_init_def)
  show "DuckDuckGoProvider_query e (p\<lparr>ddg_allowed := b\<rparr>) kw max_results w =
          map_sum id (\<lambda>(res, p', w'). (res, p'\<lparr>ddg_allowed := b\<rparr>, w'))
            (DuckDuckGoProvider_query e p kw max_results w)"
    by (simp add: DuckDuckGoProvider_query_def can_continue_def delays_of_def
          respect_ddg_delay_def split: sum.splits prod.splits)
qed

section \<open>Facts about strings and domains\<close>

lemma code_point_dot: "code_point CHR ''.'' = 46" by (simp add: code_point_def)
lemma code_point_dash: "code_point CHR ''-'' = 45" by (simp add: code_point_def)
lemma code_point_slash: "code_point CHR ''/'' = 47" by (simp add: code_point_def)
lemma code_point_colon: "code_point CHR '':'' = 58" by (simp add: code_point_def)
lemma code_point_newline: "code_point (CHR 0x0A) = 10" by (simp add: code_point_def)

lemma host_char_cases:
  "is_host_char c \<Longrightarrow> (97 \<le> code_point c \<and> code_point c \<le> 122) \<or> (48 \<le> code_point c \<and> code_point c \<le> 57) \<or> code_point c = 46 \<or> code_point c = 45"
  by (auto simp: is_host_char_def is_az_def is_digit_def code_point_dot code_point_dash)

lemma host_char_not_space: "is_host_char c \<Longrightarrow> \<not> is_space c"
  by (drule host_char_cases) (auto simp: is_space_def Let_def)

lemma host_char_lower: "is_host_char c \<Longrightarrow> lower_char c = c"
  by (drule host_char_cases) (auto simp: lower_char_def Let_def)

lemma host_char_not_slash: "is_host_char c \<Longrightarrow> c \<noteq> CHR ''/''"
  using code_point_slash by (auto dest!: host_char_cases)

lemma host_char_not_colon: "is_host_char c \<Longrightarrow> c \<noteq> CHR '':''"
  using code_point_colon by (auto dest!: host_char_cases)

lemma host_char_not_newline: "is_host_char c \<Longrightarrow> c \<noteq> CHR 0x0A"
  using code_point_newline by (auto dest!: host_char_cases)

lemma py_strip_id:
  assumes "s = [] \<or> (\<not> is_space (hd s) \<and> \<not> is_space (last s))"
  shows "py_strip s = s"
proof (cases s)
  case Nil then show ?thesis by (simp add: py_strip_def)
next
  case (Cons c cs)
  with assms have h: "\<not> is_space (hd s)" and l: "\<not> is_space (last s)" by auto
  have 1: "dropWhile is_space s = s" using h Cons by simp
  have "hd (rev s) = last s" using Cons by (simp add: hd_rev)
  then have 2: "dropWhile is_space (rev s) = rev s" using l by (simp add: dropWhile_eq_self_iff)
  show ?thesis by (simp add: py_strip_def 1 2)
qed

lemma str_partition_None: "c \<notin> set s \<Longrightarrow> c \<in> set sep \<Longrightarrow> str_partition sep s = None"
proof (induction s)
  case Nil show ?case by simp
next
  case (Cons a s)
  have "take (length sep) (a # s) \<noteq> sep"
  proof
    assume "take (length sep) (a # s) = sep"
    then have "set sep \<subseteq> set (a # s)" by (metis set_take_subset)
    with Cons.prems show False by auto
  qed
  then show ?case using Cons by simp
qed

lemma split1_absent: "c \<notin> set s \<Longrightarrow> c \<in> set sep \<Longrightarrow> split1 sep s = [s]"
  by (simp add: split1_def str_partition_None)

lemma normalize_domain_clean:
  assumes host: "list_all is_host_char d" and www: "take 4 d \<noteq> ''www.''"
  shows "normalize_domain d = d"
proof -
  have all: "\<And>c. c \<in> set d \<Longrightarrow> is_host_char c" using host by (simp add: list_all_iff)
  have "d = [] \<or> (\<not> is_space (hd d) \<and> \<not> is_space (last d))"
  proof (cases d)
    case Nil then show ?thesis by simp
  next
    case (Cons a as)
    then have "d \<noteq> []" by simp
    then have "hd d \<in> set d" "last d \<in> set d" by (rule hd_in_set, rule last_in_set)
    then show ?thesis using all host_char_not_space by blast
  qed
  then have 1: "py_strip d = d" by (rule py_strip_id)
  have slash: "CHR ''/'' \<notin> set d" using all host_char_not_slash by blast
  have colon: "CHR '':'' \<notin> set d" using all host_char_not_colon by blast
  have 2: "split1 ''//'' d = [d]" using slash by (simp add: split1_absent[of "CHR ''/''"])
  have 3: "split1 ''/'' d = [d]" using slash by (simp add: split1_absent[of "CHR ''/''"])
  have 4: "split1 '':'' d = [d]" using colon by (simp add: split1_absent[of "CHR '':''"])
  have 5: "py_lower d = d" unfolding py_lower_def using all host_char_lower by (simp add: map_idI)
  show ?thesis using www by (simp add: normalize_domain_def 1 2 3 4 5)
qed

lemma az_host: "is_az c \<Longrightarrow> is_host_char c" by (simp add: is_host_char_def)

lemma tld_whole_host_chars: "tld_whole s \<Longrightarrow> list_all is_host_char s"
proof -
  assume "tld_whole s"
  then obtain i where i: "1 \<le> i" "i < length s" "list_all is_host_char (take i s)" "s ! i = CHR ''.''"
     "list_all is_az (drop (Suc i) s)"
    by (auto simp: tld_whole_def list_ex_iff)
  have s: "s = take i s @ s ! i # drop (Suc i) s" using i(2) by (rule id_take_nth_drop)
  have "list_all is_host_char (take i s @ s ! i # drop (Suc i) s)"
    using i by (auto simp: list_all_iff is_host_char_def az_host simp del: append_take_drop_id)
  with s show ?thesis by simp
qed



lemma valid_tld: "is_valid_domain d \<Longrightarrow> re_match_to_end tld_whole d"
  by (simp add: is_valid_domain_def split: if_splits)

lemma valid_fixed_point:
  assumes "is_valid_domain d" "last d \<noteq> CHR 0x0A" "take 4 d \<noteq> ''www.''"
  shows "normalize_domain d = d"
proof -
  from assms(1,2) have "tld_whole d" by (auto dest!: valid_tld simp: re_match_to_end_def)
  then have "list_all is_host_char d" by (rule tld_whole_host_chars)
  then show ?thesis using assms(3) by (rule normalize_domain_clean)
qed














lemma split_dots_nonempty: "split_dots s \<noteq> []"
  by (induction s) (auto split: list.splits)







lemma split_dots_chars: "g \<in> set (split_dots s) \<Longrightarrow> set g \<subseteq> set s"
proof (induction s arbitrary: g)
  case Nil then show ?case by simp
next
  case (Cons c cs)
  obtain h hs where h: "split_dots cs = h # hs" using split_dots_nonempty[of cs] by (cases "split_dots cs") auto
  show ?case
  proof (cases "c = CHR ''.''")
    case True then show ?thesis using Cons by auto
  next
    case False
    then have "g = c # h \<or> g \<in> set hs" using Cons.prems h by simp
    moreover have "set h \<subseteq> set cs" using Cons.IH[of h] h by simp
    moreover have "g \<in> set hs \<Longrightarrow> set g \<subseteq> set cs" using Cons.IH[of g] h by simp
    ultimately show ?thesis by auto
  qed
qed






lemma unique_sorted_set:
  "set (unique_sorted ds) = {d \<in> normalize_domain ` set ds. d \<noteq> [] \<and> is_valid_domain d}"
proof -
  have "finite {d \<in> normalize_domain ` {d \<in> set ds. normalize_domain d \<noteq> []}. is_valid_domain d}" by simp
  then show ?thesis by (auto simp: unique_sorted_def Let_def)
qed

lemma unique_sorted_sorted: "sorted (unique_sorted ds) \<and> distinct (unique_sorted ds)"
  by (simp add: unique_sorted_def Let_def)

lemma unique_sorted_valid: "d \<in> set (unique_sorted ds) \<Longrightarrow> is_valid_domain d"
  by (simp add: unique_sorted_set)

lemma unique_sorted_eq_sorted_set:
  "unique_sorted ds = sorted_list_of_set {d \<in> normalize_domain ` set ds. d \<noteq> [] \<and> is_valid_domain d}"
proof -
  have "{d \<in> normalize_domain ` {d \<in> set ds. normalize_domain d \<noteq> []}. is_valid_domain d}
        = {d \<in> normalize_domain ` set ds. d \<noteq> [] \<and> is_valid_domain d}" by auto
  then show ?thesis by (simp add: unique_sorted_def Let_def)
qed

lemma unique_sorted_idem:
  assumes "\<And>d. d \<in> set (unique_sorted urls) \<Longrightarrow> normalize_domain d = d"
  shows "unique_sorted (unique_sorted urls) = unique_sorted urls"
proof -
  let ?S = "{d \<in> normalize_domain ` set urls. d \<noteq> [] \<and> is_valid_domain d}"
  have S: "set (unique_sorted urls) = ?S" by (rule unique_sorted_set)
  have "{d \<in> normalize_domain ` set (unique_sorted urls). d \<noteq> [] \<and> is_valid_domain d} = ?S"
  proof (intro set_eqI iffI)
    fix x assume "x \<in> {d \<in> normalize_domain ` set (unique_sorted urls). d \<noteq> [] \<and> is_valid_domain d}"
    then obtain d where d: "d \<in> set (unique_sorted urls)" "x = normalize_domain d" by blast
    then have "x = d" using assms by simp
    with d(1) S show "x \<in> ?S" by simp
  next
    fix x assume x: "x \<in> ?S"
    then have xs: "x \<in> set (unique_sorted urls)" using S by simp
    then have "normalize_domain x = x" by (rule assms)
    then have "x \<in> normalize_domain ` set (unique_sorted urls)" using xs by (metis imageI)
    with x show "x \<in> {d \<in> normalize_domain ` set (unique_sorted urls). d \<noteq> [] \<and> is_valid_domain d}" by simp
  qed
  then show ?thesis by (simp add: unique_sorted_eq_sorted_set)
qed


section \<open>Normalisation and validation\<close>




section \<open>Collecting twice\<close>

text \<open>
  Claim C7 as stated fails: \<^verbatim>\<open>www.www.example.com\<close> collects to \<^verbatim>\<open>www.example.com\<close>, which
  collects to \<^verbatim>\<open>example.com\<close> (one leading \<^verbatim>\<open>www.\<close> is stripped per pass), and a host with a
  newline before the path keeps the newline through the first pass and loses it in the
  second.
\<close>

theorem unique_sorted_not_idempotent:
  "unique_sorted [''www.www.example.com''] = [''www.example.com'']
   \<and> unique_sorted (unique_sorted [''www.www.example.com'']) = [''example.com'']
   \<and> unique_sorted (unique_sorted [''www.www.example.com'']) \<noteq> unique_sorted [''www.www.example.com'']
   \<and> normalize_domain ''www.example.com'' \<noteq> ''www.example.com''
   \<and> unique_sorted [''example.com'' @ [CHR 0x0A] @ ''/x''] = [''example.com'' @ [CHR 0x0A]]
   \<and> unique_sorted (unique_sorted [''example.com'' @ [CHR 0x0A] @ ''/x'']) = [''example.com'']"
  by code_simp

text \<open>
  Claim C7, amended. Every element of \<open>unique_sorted urls\<close> passes \<open>is_valid_domain\<close>; an
  element that does not start with \<^verbatim>\<open>www.\<close> and does not end in a newline is a fixed point of
  \<open>normalize_domain\<close>; and when no element starts with \<^verbatim>\<open>www.\<close> or ends in a newline,
  \<open>unique_sorted (unique_sorted urls) = unique_sorted urls\<close>.
\<close>

theorem unique_sorted_idempotent_when_clean:
  "(\<forall>d \<in> set (unique_sorted urls). is_valid_domain d)
   \<and> (\<forall>d \<in> set (unique_sorted urls).
         take 4 d \<noteq> ''www.'' \<and> last d \<noteq> CHR 0x0A \<longrightarrow> normalize_domain d = d)
   \<and> ((\<forall>d \<in> set (unique_sorted urls). take 4 d \<noteq> ''www.'' \<and> last d \<noteq> CHR 0x0A)
        \<longrightarrow> unique_sorted (unique_sorted urls) = unique_sorted urls)"
proof (intro conjI ballI impI)
  fix d assume "d \<in> set (unique_sorted urls)"
  then show "is_valid_domain d" by (rule unique_sorted_valid)
next
  fix d assume "d \<in> set (unique_sorted urls)" "take 4 d \<noteq> ''www.'' \<and> last d \<noteq> CHR 0x0A"
  then show "normalize_domain d = d" by (simp add: valid_fixed_point unique_sorted_valid)
next
  assume a: "\<forall>d \<in> set (unique_sorted urls). take 4 d \<noteq> ''www.'' \<and> last d \<noteq> CHR 0x0A"
  show "unique_sorted (unique_sorted urls) = unique_sorted urls"
  proof (rule unique_sorted_idem)
    fix d assume "d \<in> set (unique_sorted urls)"
    then show "normalize_domain d = d" using a by (simp add: valid_fixed_point unique_sorted_valid)
  qed
qed

theorem unique_sorted_idempotent_when_clean_witness:
  "unique_sorted [''http://A.com/x'', ''https://a.com/y'', ''http://www.a.com''] = [''a.com'']
   \<and> is_valid_domain ''a.com''
   \<and> normalize_domain ''a.com'' = ''a.com''
   \<and> unique_sorted (unique_sorted [''http://A.com/x'', ''https://a.com/y'', ''http://www.a.com''])
       = unique_sorted [''http://A.com/x'', ''https://a.com/y'', ''http://www.a.com'']"
proof -
  have u: "unique_sorted [''http://A.com/x'', ''https://a.com/y'', ''http://www.a.com''] = [''a.com'']"
    by code_simp
  have c: "take 4 ''a.com'' \<noteq> ''www.'' \<and> last ''a.com'' \<noteq> CHR 0x0A" by simp
  show ?thesis
    using unique_sorted_idempotent_when_clean
            [of "[''http://A.com/x'', ''https://a.com/y'', ''http://www.a.com'']"] c
    unfolding u by simp
qed

section \<open>Facts about the retry loops and the queries\<close>

lemma backoff_loop_nonneg:
  "0 \<le> m \<Longrightarrow> 0 \<le> cur \<Longrightarrow> \<forall>d \<in> set ds. 0 \<le> d \<Longrightarrow> \<forall>d \<in> set (backoff_loop m n cur ds). 0 \<le> d"
proof (induction n arbitrary: cur ds)
  case 0
  then show ?case by simp
next
  case (Suc n)
  have "0 \<le> min m (cur * 2)" using Suc.prems by simp
  moreover have "\<forall>d \<in> set (ds @ [cur]). 0 \<le> d" using Suc.prems by simp
  ultimately have "\<forall>d \<in> set (backoff_loop m n (min m (cur * 2)) (ds @ [cur])). 0 \<le> d"
    using Suc.prems(1) by (intro Suc.IH)
  then show ?case by simp
qed

lemma backoff_loop_bounded:
  "cur \<le> L \<Longrightarrow> m \<le> L \<Longrightarrow> \<forall>d \<in> set ds. d \<le> L \<Longrightarrow> \<forall>d \<in> set (backoff_loop m n cur ds). d \<le> L"
proof (induction n arbitrary: cur ds)
  case 0
  then show ?case by simp
next
  case (Suc n)
  have "min m (cur * 2) \<le> L" using Suc.prems(2) by linarith
  moreover have "\<forall>d \<in> set (ds @ [cur]). d \<le> L" using Suc.prems by simp
  ultimately have "\<forall>d \<in> set (backoff_loop m n (min m (cur * 2)) (ds @ [cur])). d \<le> L"
    using Suc.prems(2) by (intro Suc.IH)
  then show ?case by simp
qed

lemma delays_of_nonneg:
  "0 \<le> backoff_base_seconds p \<Longrightarrow> 0 \<le> backoff_max_seconds p \<Longrightarrow> \<forall>d \<in> set (delays_of p). 0 \<le> d"
  unfolding delays_of_def backoff_delays_def by (rule backoff_loop_nonneg) simp_all

lemma delays_of_bounded:
  "backoff_base_seconds p \<le> L \<Longrightarrow> backoff_max_seconds p \<le> L \<Longrightarrow> \<forall>d \<in> set (delays_of p). d \<le> L"
  unfolding delays_of_def backoff_delays_def by (rule backoff_loop_bounded) simp_all

lemma delays_of_sleepable:
  assumes "0 \<le> backoff_base_seconds p" "backoff_base_seconds p \<le> sleep_limit e"
          "0 \<le> backoff_max_seconds p" "backoff_max_seconds p \<le> sleep_limit e"
  shows "\<forall>d \<in> set (delays_of p). 0 \<le> d \<and> d \<le> sleep_limit e"
  using delays_of_nonneg[OF assms(1,3)] delays_of_bounded[OF assms(2,4)] by simp

lemma time_sleep_ok:
  "0 \<le> d \<Longrightarrow> d \<le> sleep_limit e \<Longrightarrow> time_sleep e d w = Inr (w\<lparr>sleeps := sleeps w @ [d]\<rparr>)"
  by (simp add: time_sleep_def sleep_error_def)

lemma time_sleep_http: "time_sleep e d w = Inr w2 \<Longrightarrow> http_calls w2 = http_calls w"
  by (auto simp: time_sleep_def split: option.splits)

lemma RateLimiter_wait_ok:
  assumes "rps \<le> 0 \<or> (\<forall>w. limiter_delay e w rps jitter_pct \<le> sleep_limit e)"
  shows "\<exists>w0. RateLimiter_wait e rps jitter_pct w = Inr w0"
proof (cases "rps \<le> 0")
  case True
  then show ?thesis by (simp add: RateLimiter_wait_def)
next
  case False
  with assms have "limiter_delay e w rps jitter_pct \<le> sleep_limit e" by simp
  then show ?thesis by (simp add: RateLimiter_wait_def sleep_error_def)
qed

lemma google_attempts_never_end:
  assumes "google_attempts e delays attempt results w = Some y"
  shows "\<not> ((\<forall>n. retryable (requests_get_google e n)) \<and> delays \<noteq> []
             \<and> (\<forall>d \<in> set delays. 0 \<le> d \<and> d \<le> sleep_limit e) \<and> 0 \<le> attempt)"
  using assms
proof (induct rule: google_attempts.raw_induct[rotated 1, consumes 1, case_names 1])
  case (1 f e delays attempt results w y)
  show ?case
  proof
    assume H: "(\<forall>n. retryable (requests_get_google e n)) \<and> delays \<noteq> []
               \<and> (\<forall>d \<in> set delays. 0 \<le> d \<and> d \<le> sleep_limit e) \<and> 0 \<le> attempt"
    have c: "min attempt (int (length delays) - 1) < int (length delays)"
            "0 \<le> min attempt (int (length delays) - 1)" using H by auto
    then have "nat (min attempt (int (length delays) - 1)) < length delays" by linarith
    then have nn: "0 \<le> delays ! nat (min attempt (int (length delays) - 1))"
                  "delays ! nat (min attempt (int (length delays) - 1)) \<le> sleep_limit e"
      using H by simp_all
    note sl = time_sleep_ok[OF nn]
    have r: "retryable (requests_get_google e (http_calls w))" using H by simp
    have "\<exists>w2. f e delays (attempt + 1) results w2 = Some y"
    proof (cases "requests_get_google e (http_calls w)")
      case (Response code items)
      with r have "code = 429 \<or> code = 503" by (simp add: retryable_def)
      with 1(2) Response c sl show ?thesis
        by (auto simp: Let_def)
    next
      case Timeout
      with 1(2) c sl show ?thesis by (auto simp: Let_def)
    next
      case ConnectionError
      with 1(2) c sl show ?thesis by (auto simp: Let_def)
    next
      case OtherException
      with r show ?thesis by (simp add: retryable_def)
    qed
    then obtain w2 where "f e delays (attempt + 1) results w2 = Some y" ..
    from 1(1)[OF this] H show False by simp
  qed
qed

lemma google_attempts_loops:
  "\<forall>n. retryable (requests_get_google e n) \<Longrightarrow> delays \<noteq> []
   \<Longrightarrow> \<forall>d \<in> set delays. 0 \<le> d \<and> d \<le> sleep_limit e \<Longrightarrow> 0 \<le> attempt
   \<Longrightarrow> google_attempts e delays attempt results w = None"
  using google_attempts_never_end[of e delays attempt results w] by (cases "google_attempts e delays attempt results w") auto

lemma google_attempts_ends:
  "\<not> retryable (requests_get_google e (http_calls w + k))
   \<Longrightarrow> google_attempts e delays attempt results w \<noteq> None"
proof (induction k arbitrary: attempt w)
  case 0
  then show ?case
    by (subst google_attempts.simps) (simp add: Let_def retryable_def split: http_result.splits)
next
  case (Suc k)
  have sl: "(case time_sleep e d (w\<lparr>http_calls := http_calls w + 1\<rparr>) of
               Inl x \<Rightarrow> Some (g x)
             | Inr w2 \<Rightarrow> google_attempts e delays (attempt + 1) results w2) \<noteq> None" for d g
  proof (cases "time_sleep e d (w\<lparr>http_calls := http_calls w + 1\<rparr>)")
    case (Inl x) then show ?thesis by simp
  next
    case (Inr w2)
    then have "http_calls w2 = http_calls w + 1" by (simp add: time_sleep_http)
    then have "google_attempts e delays (attempt + 1) results w2 \<noteq> None"
      using Suc.IH[of w2 "attempt + 1"] Suc.prems by simp
    then show ?thesis using Inr by simp
  qed
  show ?case
  proof (cases "requests_get_google e (http_calls w)")
    case (Response code items)
    then show ?thesis
      using sl by (subst google_attempts.simps) (simp add: Let_def del: One_nat_def)
  next
    case Timeout
    then show ?thesis
      using sl by (subst google_attempts.simps) (simp add: Let_def del: One_nat_def)
  next
    case ConnectionError
    then show ?thesis
      using sl by (subst google_attempts.simps) (simp add: Let_def del: One_nat_def)
  next
    case OtherException
    then show ?thesis by (subst google_attempts.simps) (simp add: Let_def)
  qed
qed

lemma google_attempts_ends_no_delays: "google_attempts e [] attempt results w \<noteq> None"
  by (subst google_attempts.simps) (simp add: Let_def split: http_result.splits)

lemma google_attempts_no_exception:
  assumes "google_attempts e delays attempt results w = Some y"
  shows "(\<forall>d \<in> set delays. 0 \<le> d \<and> d \<le> sleep_limit e) \<longrightarrow> (\<forall>x. y \<noteq> Inl x)"
  using assms
proof (induct rule: google_attempts.raw_induct[rotated 1, consumes 1, case_names 1])
  case (1 f e delays attempt results w y)
  show ?case
  proof (intro impI allI)
    fix x assume nn: "\<forall>d \<in> set delays. 0 \<le> d \<and> d \<le> sleep_limit e"
    have sl: "time_sleep e (delays ! nat (min attempt (int (length delays) - 1))) w' \<noteq> Inl x'"
      if "0 \<le> min attempt (int (length delays) - 1)"
         "min attempt (int (length delays) - 1) < int (length delays)" for w' x'
    proof -
      from that have "nat (min attempt (int (length delays) - 1)) < length delays" by linarith
      then have "0 \<le> delays ! nat (min attempt (int (length delays) - 1))"
                "delays ! nat (min attempt (int (length delays) - 1)) \<le> sleep_limit e"
        using nn by simp_all
      then show ?thesis by (simp add: time_sleep_ok)
    qed
    have "(\<exists>r. y = Inr r) \<or> (\<exists>w2. f e delays (attempt + 1) results w2 = Some y)"
    proof (cases "requests_get_google e (http_calls w)")
      case (Response code items)
      with 1(2) sl show ?thesis
        by (auto simp: Let_def split: if_splits sum.splits)
    next
      case Timeout
      with 1(2) sl show ?thesis by (auto simp: Let_def split: if_splits sum.splits)
    next
      case ConnectionError
      with 1(2) sl show ?thesis by (auto simp: Let_def split: if_splits sum.splits)
    next
      case OtherException
      with 1(2) show ?thesis by (auto simp: Let_def)
    qed
    then show "y \<noteq> Inl x"
    proof
      assume "\<exists>r. y = Inr r"
      then show ?thesis by auto
    next
      assume "\<exists>w2. f e delays (attempt + 1) results w2 = Some y"
      then obtain w2 where "f e delays (attempt + 1) results w2 = Some y" ..
      from 1(1)[OF this] nn have "\<forall>x. y \<noteq> Inl x" by simp
      then show ?thesis by (rule spec)
    qed
  qed
qed

lemma google_pages_ends:
  assumes "delays = [] \<or> (\<forall>n. \<exists>k. \<not> retryable (requests_get_google e (n + k)))"
  shows "google_pages e delays rps jitter_pct max_results start_index results w \<noteq> None"
  using assms
proof (induction e delays rps jitter_pct max_results start_index results w rule: google_pages.induct)
  case (1 e delays rps jitter_pct max_results start_index results w)
  have a: "google_attempts e delays 0 results w0 \<noteq> None" for w0
  proof -
    from 1(2) consider "delays = []" | k where "\<not> retryable (requests_get_google e (http_calls w0 + k))"
      by blast
    then show ?thesis
      by cases (simp_all add: google_attempts_ends_no_delays google_attempts_ends)
  qed
  show ?case
  proof (cases "int (length results) < max_results \<and> start_index \<le> 91")
    case False
    then have "google_pages e delays rps jitter_pct max_results start_index results w = Some (Inr (results, w))"
      by (subst google_pages.simps) (simp only: if_False)
    then show ?thesis by simp
  next
    case True
    show ?thesis
    proof (cases "RateLimiter_wait e rps jitter_pct w")
      case (Inl x)
      then show ?thesis using True by (subst google_pages.simps) simp
    next
      case w0: (Inr w0)
      show ?thesis
      proof (cases "google_attempts e delays 0 results w0")
        case None
        then show ?thesis using a[of w0] by simp
      next
        case (Some y)
        show ?thesis
        proof (cases y)
          case (Inl x')
          then show ?thesis using True w0 Some by (subst google_pages.simps) simp
        next
          case (Inr r)
          obtain results' w' where r: "r = (results', w')" by (cases r)
          show ?thesis
          proof (cases "max_results \<le> int (length results')")
            case t: True
            then show ?thesis using True w0 Some Inr r by (subst google_pages.simps) simp
          next
            case f: False
            have "google_pages e delays rps jitter_pct max_results (start_index + 10) results' w' \<noteq> None"
              using 1(1)[OF True w0 Some Inr r[symmetric] f] 1(2) by simp
            then show ?thesis using True w0 Some Inr r f by (subst google_pages.simps) simp
          qed
        qed
      qed
    qed
  qed
qed

lemma google_pages_no_exception:
  assumes "\<forall>d \<in> set delays. 0 \<le> d \<and> d \<le> sleep_limit e"
      and "rps \<le> 0 \<or> (\<forall>w. limiter_delay e w rps jitter_pct \<le> sleep_limit e)"
  shows "google_pages e delays rps jitter_pct max_results start_index results w \<noteq> Some (Inl x)"
  using assms
proof (induction e delays rps jitter_pct max_results start_index results w rule: google_pages.induct)
  case (1 e delays rps jitter_pct max_results start_index results w)
  obtain w0 where w0: "RateLimiter_wait e rps jitter_pct w = Inr w0"
    using RateLimiter_wait_ok[OF 1(3)] by blast
  have a: "google_attempts e delays 0 results w0 \<noteq> Some (Inl x')" for x'
    using google_attempts_no_exception[of e delays 0 results w0 "Inl x'"] 1(2)
    by auto
  show ?case
  proof (cases "int (length results) < max_results \<and> start_index \<le> 91")
    case False
    then have "google_pages e delays rps jitter_pct max_results start_index results w = Some (Inr (results, w))"
      by (subst google_pages.simps) (simp only: if_False)
    then show ?thesis by simp
  next
    case True
    show ?thesis
    proof (cases "google_attempts e delays 0 results w0")
      case None
      then show ?thesis using True w0 by (subst google_pages.simps) simp
    next
      case (Some y)
      show ?thesis
      proof (cases y)
        case (Inl x')
        then show ?thesis using a[of x'] Some by simp
      next
        case (Inr r)
        obtain results' w' where r: "r = (results', w')" by (cases r)
        show ?thesis
        proof (cases "max_results \<le> int (length results')")
          case t: True
          then show ?thesis using True w0 Some Inr r by (subst google_pages.simps) simp
        next
          case f: False
          have "google_pages e delays rps jitter_pct max_results (start_index + 10) results' w' \<noteq> Some (Inl x)"
            using 1(1)[OF True w0 Some Inr r[symmetric] f] 1(2) 1(3) by simp
          then show ?thesis using True w0 Some Inr r f by (subst google_pages.simps) simp
        qed
      qed
    qed
  qed
qed

lemma google_pages_returns:
  assumes "delays = [] \<or> (\<forall>n. \<exists>k. \<not> retryable (requests_get_google e (n + k)))"
      and "\<forall>d \<in> set delays. 0 \<le> d \<and> d \<le> sleep_limit e"
      and "rps \<le> 0 \<or> (\<forall>w. limiter_delay e w rps jitter_pct \<le> sleep_limit e)"
  shows "\<exists>results' w'. google_pages e delays rps jitter_pct max_results start_index results w = Some (Inr (results', w'))"
proof (cases "google_pages e delays rps jitter_pct max_results start_index results w")
  case None
  then show ?thesis using google_pages_ends[OF assms(1)] by simp
next
  case (Some y)
  then show ?thesis
    using google_pages_no_exception[OF assms(2,3), of max_results start_index results w]
    by (cases y) auto
qed

lemma ddg_attempts_returns:
  assumes "\<forall>d \<in> set delays. 0 \<le> d \<and> d \<le> sleep_limit e" "0 \<le> attempt"
  shows "\<exists>results' w'. ddg_attempts e delays attempt results w = Inr (results', w')"
  using assms
proof (induction e delays attempt results w rule: ddg_attempts.induct)
  case (1 e delays attempt results w)
  show ?case
  proof (cases "ddgs_text e (search_calls w)")
    case (Yields hits)
    then show ?thesis by (subst ddg_attempts.simps) (simp add: Let_def)
  next
    case (YieldsThenRaises hits)
    show ?thesis
    proof (cases "attempt + 1 \<le> int (length delays)")
      case False
      then show ?thesis using YieldsThenRaises by (subst ddg_attempts.simps) (simp add: Let_def)
    next
      case True
      then have "nat (attempt + 1 - 1) < length delays" using 1(3) by linarith
      then have nn: "0 \<le> delays ! nat (attempt + 1 - 1)"
                    "delays ! nat (attempt + 1 - 1) \<le> sleep_limit e" using 1(2) by simp_all
      define w2 where "w2 = (w\<lparr>search_calls := search_calls w + 1\<rparr>)\<lparr>sleeps := sleeps (w\<lparr>search_calls := search_calls w + 1\<rparr>) @ [delays ! nat (attempt + 1 - 1)]\<rparr>"
      have sl: "time_sleep e (delays ! nat (attempt + 1 - 1)) (w\<lparr>search_calls := search_calls w + 1\<rparr>) = Inr w2"
        unfolding w2_def using nn by (rule time_sleep_ok)
      have "\<exists>results' w'. ddg_attempts e delays (attempt + 1) (append_urls results hits) w2 = Inr (results', w')"
        using 1(1)[OF refl refl YieldsThenRaises True sl] 1(2) 1(3) by simp
      then show ?thesis
        using YieldsThenRaises True sl by (subst ddg_attempts.simps) (simp add: Let_def)
    qed
  qed
qed

lemma respect_ddg_delay_returns:
  "\<forall>c. ddg_crawl_delay p = Some c \<longrightarrow> c \<le> sleep_limit e \<Longrightarrow> \<exists>w'. respect_ddg_delay e p w = Inr w'"
proof (cases "ddg_crawl_delay p")
  case None
  then show ?thesis by (simp add: respect_ddg_delay_def)
next
  case (Some c)
  assume "\<forall>c. ddg_crawl_delay p = Some c \<longrightarrow> c \<le> sleep_limit e"
  with Some have "c \<le> sleep_limit e" by simp
  then show ?thesis using Some
    by (simp add: respect_ddg_delay_def time_sleep_def sleep_error_def)
qed

lemma google_query_exhausted:
  "\<not> can_continue p \<Longrightarrow> GoogleCSEProvider_query e p kw n w = Some (Inr ([], p, w))"
  by (simp add: GoogleCSEProvider_query_def)

lemma google_query_no_credentials:
  "can_continue p \<Longrightarrow> \<not> has_credentials p \<Longrightarrow>
     GoogleCSEProvider_query e p kw n w = Some (Inr ([], p\<lparr>queries_made := queries_made p + 1\<rparr>, w))"
  by (simp add: GoogleCSEProvider_query_def)

lemma google_query_counts:
  "can_continue p \<Longrightarrow> GoogleCSEProvider_query e p kw n w = Some (Inr (res, p', w')) \<Longrightarrow>
     p' = p\<lparr>queries_made := queries_made p + 1\<rparr>"
  by (auto simp: GoogleCSEProvider_query_def split: if_splits option.splits sum.splits)

lemma google_query_returns:
  assumes "can_continue p"
      and "delays_of p = [] \<or> (\<forall>n. \<exists>k. \<not> retryable (requests_get_google e (n + k)))"
      and "\<forall>d \<in> set (delays_of p). 0 \<le> d \<and> d \<le> sleep_limit e"
      and "rate_limit_rps p \<le> 0
           \<or> (\<forall>w. limiter_delay e w (rate_limit_rps p) (jitter_percent p) \<le> sleep_limit e)"
  shows "\<exists>res w'. GoogleCSEProvider_query e p kw n w = Some (Inr (res, p\<lparr>queries_made := queries_made p + 1\<rparr>, w'))"
proof (cases "has_credentials p")
  case False
  then show ?thesis using assms(1) by (simp add: google_query_no_credentials)
next
  case True
  obtain results' w' where "google_pages e (delays_of p) (rate_limit_rps p) (jitter_percent p) n 1 [] w = Some (Inr (results', w'))"
    using google_pages_returns[OF assms(2,3,4)] by blast
  then show ?thesis using True assms(1) by (simp add: GoogleCSEProvider_query_def)
qed

lemma ddg_query_exhausted:
  "\<not> can_continue p \<Longrightarrow> DuckDuckGoProvider_query e p kw n w = Inr ([], p, w)"
  by (simp add: DuckDuckGoProvider_query_def)

lemma ddg_query_no_library:
  "can_continue p \<Longrightarrow> \<not> DDGS_present e \<Longrightarrow>
     DuckDuckGoProvider_query e p kw n w =
       Inr ([], p\<lparr>queries_made := queries_made p + 1\<rparr>,
            logger_call WARNING ''duckduckgo_search not available; returning empty.'' w)"
  by (simp add: DuckDuckGoProvider_query_def)

lemma ddg_query_counts:
  "can_continue p \<Longrightarrow> DuckDuckGoProvider_query e p kw n w = Inr (res, p', w') \<Longrightarrow>
     p' = p\<lparr>queries_made := queries_made p + 1\<rparr>"
  by (auto simp: DuckDuckGoProvider_query_def split: if_splits sum.splits)

lemma ddg_query_returns:
  assumes "can_continue p"
      and "\<forall>d \<in> set (delays_of p). 0 \<le> d \<and> d \<le> sleep_limit e"
      and "rate_limit_rps p \<le> 0
           \<or> (\<forall>w. limiter_delay e w (rate_limit_rps p) (jitter_percent p) \<le> sleep_limit e)"
      and "\<forall>c. ddg_crawl_delay p = Some c \<longrightarrow> c \<le> sleep_limit e"
  shows "\<exists>res w'. DuckDuckGoProvider_query e p kw n w = Inr (res, p\<lparr>queries_made := queries_made p + 1\<rparr>, w')"
proof (cases "DDGS_present e")
  case False
  then show ?thesis using assms(1) by (simp add: ddg_query_no_library)
next
  case True
  obtain w0 where w0: "RateLimiter_wait e (rate_limit_rps p) (jitter_percent p) w = Inr w0"
    using RateLimiter_wait_ok[OF assms(3)] by blast
  obtain w1 where w1: "respect_ddg_delay e p w0 = Inr w1"
    using respect_ddg_delay_returns[OF assms(4)] by blast
  obtain results' w' where "ddg_attempts e (delays_of p) 0 [] w1 = Inr (results', w')"
    using ddg_attempts_returns[OF assms(2), of 0 "[]" w1] by auto
  then show ?thesis using True assms(1) w0 w1 by (simp add: DuckDuckGoProvider_query_def)
qed

lemma delays_of_google_default: "delays_of google_default = [0.5, 1]"
  by code_simp

lemma delays_of_ddg_default: "delays_of ddg_default = [0.5, 1]"
  by code_simp

lemma default_sleep_limit:
  "sleep_limit env0 = 2 ^ 63 / 10 ^ 9"
  "sleep_limit env_always_429 = 2 ^ 63 / 10 ^ 9"
  "sleep_limit env_429_five_times = 2 ^ 63 / 10 ^ 9"
  "sleep_limit env_search_always_raises = 2 ^ 63 / 10 ^ 9"
  by (simp_all add: env0_def env_always_429_def env_429_five_times_def env_search_always_raises_def)

lemma default_rate_limit:
  "rate_limit_rps google_default = 0.5" "jitter_percent google_default = 20"
  "rate_limit_rps ddg_default = 0.5" "jitter_percent ddg_default = 20"
  "ddg_crawl_delay ddg_default = None"
  by code_simp+

lemma default_limiter_delay:
  "limiter_delay env_always_429 v (rate_limit_rps google_default) (jitter_percent google_default)
     \<le> sleep_limit env_always_429"
  "limiter_delay env_429_five_times v (rate_limit_rps google_default) (jitter_percent google_default)
     \<le> sleep_limit env_429_five_times"
  "limiter_delay env_search_always_raises v (rate_limit_rps ddg_default) (jitter_percent ddg_default)
     \<le> sleep_limit env_search_always_raises"
  unfolding default_rate_limit
  by (simp_all add: limiter_delay_def Let_def env0_def env_always_429_def env_429_five_times_def
        env_search_always_raises_def)

section \<open>The retry budget\<close>

text \<open>
  Claim C1 says that every retry loop stops once the backoff sequence is used up. The
  DuckDuckGo loop does (\<^verbatim>\<open>if attempt <= len(delays)\<close>): against a library that always raises
  it makes three attempts with the default \<open>retry_attempts = 3\<close>. The Google loop clamps
  the index instead (\<^verbatim>\<open>idx = min(attempt - 1, len(delays) - 1)\<close>), so with a non-empty
  sequence the index is always in range and the branch that logs
  \<^verbatim>\<open>google backoff exhausted\<close> is never taken: against an API that always answers 429 the
  page request, and with it the query, never returns; against five 429 answers followed
  by a 200 it makes six attempts, twice the budget, sleeping the last delay again and
  again.
\<close>

theorem google_retry_loop_has_no_bound:
  "retry_attempts google_default = 3
   \<and> delays_of google_default = [0.5, 1]
   \<and> google_attempts env_always_429 (delays_of google_default) 0 [] world0 = None
   \<and> GoogleCSEProvider_query env_always_429 google_default ''x'' 10 world0 = None
   \<and> google_attempts env_429_five_times (delays_of google_default) 0 [] world0 =
       Some (Inr ([''https://example.com/a''],
                  \<lparr>http_calls = 6, search_calls = 0, sleeps = [0.5, 1, 1, 1, 1],
                   limiter_sleeps = 0, logged = [(INFO, ''google results'')],
                   out_file = None\<rparr>))
   \<and> ddg_attempts env_search_always_raises (delays_of ddg_default) 0 [] world0 =
       Inr ([], \<lparr>http_calls = 0, search_calls = 3, sleeps = [0.5, 1],
                 limiter_sleeps = 0, logged = [(WARNING, ''ddg error'')],
                 out_file = None\<rparr>)"
proof (intro conjI)
  show "retry_attempts google_default = 3" by code_simp
  show d: "delays_of google_default = [0.5, 1]" by (rule delays_of_google_default)
  have r: "\<forall>n. retryable (requests_get_google env_always_429 n)"
    by (simp add: env_always_429_def retryable_def)
  show loop: "google_attempts env_always_429 (delays_of google_default) 0 [] w = None" for w
    unfolding d using r by (intro google_attempts_loops) (simp_all add: default_sleep_limit)
  have cc: "can_continue google_default" by code_simp
  have hc: "has_credentials google_default" by code_simp
  obtain w0 where w0: "RateLimiter_wait env_always_429 (rate_limit_rps google_default)
                         (jitter_percent google_default) world0 = Inr w0"
    using RateLimiter_wait_ok[of "rate_limit_rps google_default" env_always_429
                                 "jitter_percent google_default" world0]
          default_limiter_delay(1)
    by blast
  have "google_pages env_always_429 (delays_of google_default) (rate_limit_rps google_default)
          (jitter_percent google_default) 10 1 [] world0 = None"
    by (subst google_pages.simps) (simp add: w0 loop)
  then show "GoogleCSEProvider_query env_always_429 google_default ''x'' 10 world0 = None"
    using cc hc by (simp add: GoogleCSEProvider_query_def)
  show "google_attempts env_429_five_times (delays_of google_default) 0 [] world0 =
       Some (Inr ([''https://example.com/a''],
                  \<lparr>http_calls = 6, search_calls = 0, sleeps = [0.5, 1, 1, 1, 1],
                   limiter_sleeps = 0, logged = [(INFO, ''google results'')],
                   out_file = None\<rparr>))"
    by code_simp
  show "ddg_attempts env_search_always_raises (delays_of ddg_default) 0 [] world0 =
       Inr ([], \<lparr>http_calls = 0, search_calls = 3, sleeps = [0.5, 1],
                 limiter_sleeps = 0, logged = [(WARNING, ''ddg error'')],
                 out_file = None\<rparr>)"
    by code_simp
qed

section \<open>Counting queries\<close>

text \<open>
  Claim C2 as stated fails when the quota is already used up: \<^verbatim>\<open>query\<close> returns the empty
  list from its first guard and leaves \<open>queries_made\<close> as it is.
\<close>

theorem exhausted_query_does_not_count:
  "\<not> can_continue google_exhausted
   \<and> GoogleCSEProvider_query env0 google_exhausted ''x'' 10 world0 = Some (Inr ([], google_exhausted, world0))
   \<and> \<not> can_continue ddg_exhausted
   \<and> DuckDuckGoProvider_query env0 ddg_exhausted ''x'' 10 world0 = Inr ([], ddg_exhausted, world0)
   \<and> queries_made google_exhausted \<noteq> queries_made google_exhausted + 1"
proof -
  have g: "\<not> can_continue google_exhausted" by code_simp
  have d: "\<not> can_continue ddg_exhausted" by code_simp
  show ?thesis using g d by (simp add: google_query_exhausted ddg_query_exhausted)
qed

text \<open>
  Nor does a call count that \<^verbatim>\<open>time.sleep\<close> ends: \<^verbatim>\<open>self.queries_made += 1\<close> is the last
  statement before the \<^verbatim>\<open>return\<close>, so an exception raised by the sleep of the crawl delay,
  of the rate limiter or of a backoff inside the handler of a failure leaves \<^verbatim>\<open>query\<close>
  before it. With a robots.txt that asks for a crawl delay of \<open>10 ^ 10\<close> seconds the first
  query of the DuckDuckGo provider raises \<^verbatim>\<open>OverflowError\<close> after the sleep of the rate
  limiter, before any search; and with \<^verbatim>\<open>backoff_base_seconds: -1\<close> the first timeout of a
  Google page request raises \<^verbatim>\<open>ValueError\<close>.
\<close>

lemma query_ended_by_sleep:
  "can_continue ddg_long_crawl_delay
   \<and> DuckDuckGoProvider_query env0 ddg_long_crawl_delay ''x'' 10 world0 =
       Inl (OverflowError, world0\<lparr>limiter_sleeps := 1\<rparr>)
   \<and> can_continue (google_default\<lparr>backoff_base_seconds := - 1\<rparr>)
   \<and> GoogleCSEProvider_query (env0\<lparr>requests_get_google := (\<lambda>n. Timeout)\<rparr>)
        (google_default\<lparr>backoff_base_seconds := - 1\<rparr>) ''x'' 10 world0 =
       Some (Inl (ValueError, world0\<lparr>http_calls := 1, limiter_sleeps := 1\<rparr>))"
  by code_simp

text \<open>
  Claim C2, amended. A call of \<^verbatim>\<open>query\<close> made when the quota is used up returns the empty
  list and changes nothing. A call made while quota remains, if it returns, returns the
  provider with \<open>queries_made\<close> one higher and no other field changed, whatever happened
  in between (pages, retries, failures, missing credentials, a missing search library).
  It does return when every sleep it can ask for is one \<^verbatim>\<open>time.sleep\<close> accepts, that is
  when every backoff delay lies between 0 and the sleep limit, the rate limiter is off or
  its delay never exceeds the limit, and (for DuckDuckGo) neither does the crawl delay of
  robots.txt: then always for DuckDuckGo, and for Google when there is no backoff delay
  or the API does not answer retryable failures for ever.
\<close>

theorem query_counts_once_while_quota_remains:
  "(\<not> can_continue g \<longrightarrow> GoogleCSEProvider_query e g kw n w = Some (Inr ([], g, w)))
   \<and> (\<not> can_continue d \<longrightarrow> DuckDuckGoProvider_query e d kw n w = Inr ([], d, w))
   \<and> (can_continue g \<and> \<not> has_credentials g \<longrightarrow>
        GoogleCSEProvider_query e g kw n w =
          Some (Inr ([], g\<lparr>queries_made := queries_made g + 1\<rparr>, w)))
   \<and> (can_continue d \<and> \<not> DDGS_present e \<longrightarrow>
        (\<exists>w'. DuckDuckGoProvider_query e d kw n w =
                Inr ([], d\<lparr>queries_made := queries_made d + 1\<rparr>, w')))
   \<and> (can_continue g \<and> GoogleCSEProvider_query e g kw n w = Some (Inr (res, g', w'))
        \<longrightarrow> g' = g\<lparr>queries_made := queries_made g + 1\<rparr>)
   \<and> (can_continue d \<and> DuckDuckGoProvider_query e d kw n w = Inr (res, d', w')
        \<longrightarrow> d' = d\<lparr>queries_made := queries_made d + 1\<rparr>)
   \<and> (can_continue g
        \<and> (\<forall>s \<in> set (delays_of g). 0 \<le> s \<and> s \<le> sleep_limit e)
        \<and> (rate_limit_rps g \<le> 0
            \<or> (\<forall>v. limiter_delay e v (rate_limit_rps g) (jitter_percent g) \<le> sleep_limit e))
        \<and> (delays_of g = [] \<or> (\<forall>i. \<exists>k. \<not> retryable (requests_get_google e (i + k))))
        \<longrightarrow> (\<exists>res w'. GoogleCSEProvider_query e g kw n w =
                       Some (Inr (res, g\<lparr>queries_made := queries_made g + 1\<rparr>, w'))))
   \<and> (can_continue d
        \<and> (\<forall>s \<in> set (delays_of d). 0 \<le> s \<and> s \<le> sleep_limit e)
        \<and> (rate_limit_rps d \<le> 0
            \<or> (\<forall>v. limiter_delay e v (rate_limit_rps d) (jitter_percent d) \<le> sleep_limit e))
        \<and> (\<forall>c. ddg_crawl_delay d = Some c \<longrightarrow> c \<le> sleep_limit e)
        \<longrightarrow> (\<exists>res w'. DuckDuckGoProvider_query e d kw n w =
                       Inr (res, d\<lparr>queries_made := queries_made d + 1\<rparr>, w')))"
proof (intro conjI impI)
  show "GoogleCSEProvider_query e g kw n w = Some (Inr ([], g, w))" if "\<not> can_continue g"
    using that by (rule google_query_exhausted)
  show "DuckDuckGoProvider_query e d kw n w = Inr ([], d, w)" if "\<not> can_continue d"
    using that by (rule ddg_query_exhausted)
  show "GoogleCSEProvider_query e g kw n w = Some (Inr ([], g\<lparr>queries_made := queries_made g + 1\<rparr>, w))"
    if "can_continue g \<and> \<not> has_credentials g"
    using that by (simp add: google_query_no_credentials)
  show "\<exists>w'. DuckDuckGoProvider_query e d kw n w = Inr ([], d\<lparr>queries_made := queries_made d + 1\<rparr>, w')"
    if "can_continue d \<and> \<not> DDGS_present e"
    using that by (simp add: ddg_query_no_library)
  show "g' = g\<lparr>queries_made := queries_made g + 1\<rparr>"
    if "can_continue g \<and> GoogleCSEProvider_query e g kw n w = Some (Inr (res, g', w'))"
    using that google_query_counts by blast
  show "d' = d\<lparr>queries_made := queries_made d + 1\<rparr>"
    if "can_continue d \<and> DuckDuckGoProvider_query e d kw n w = Inr (res, d', w')"
    using that ddg_query_counts by blast
  show "\<exists>res w'. GoogleCSEProvider_query e g kw n w =
                    Some (Inr (res, g\<lparr>queries_made := queries_made g + 1\<rparr>, w'))"
    if h: "can_continue g
        \<and> (\<forall>s \<in> set (delays_of g). 0 \<le> s \<and> s \<le> sleep_limit e)
        \<and> (rate_limit_rps g \<le> 0
            \<or> (\<forall>v. limiter_delay e v (rate_limit_rps g) (jitter_percent g) \<le> sleep_limit e))
        \<and> (delays_of g = [] \<or> (\<forall>i. \<exists>k. \<not> retryable (requests_get_google e (i + k))))"
  proof (rule google_query_returns)
    show "can_continue g" using h by (rule conjunct1)
    show "delays_of g = [] \<or> (\<forall>i. \<exists>k. \<not> retryable (requests_get_google e (i + k)))"
      using h by (elim conjE)
    show "\<forall>s \<in> set (delays_of g). 0 \<le> s \<and> s \<le> sleep_limit e" using h by (elim conjE)
    show "rate_limit_rps g \<le> 0
            \<or> (\<forall>v. limiter_delay e v (rate_limit_rps g) (jitter_percent g) \<le> sleep_limit e)"
      using h by (elim conjE)
  qed
  show "\<exists>res w'. DuckDuckGoProvider_query e d kw n w =
                    Inr (res, d\<lparr>queries_made := queries_made d + 1\<rparr>, w')"
    if h: "can_continue d
        \<and> (\<forall>s \<in> set (delays_of d). 0 \<le> s \<and> s \<le> sleep_limit e)
        \<and> (rate_limit_rps d \<le> 0
            \<or> (\<forall>v. limiter_delay e v (rate_limit_rps d) (jitter_percent d) \<le> sleep_limit e))
        \<and> (\<forall>c. ddg_crawl_delay d = Some c \<longrightarrow> c \<le> sleep_limit e)"
  proof (rule ddg_query_returns)
    show "can_continue d" using h by (rule conjunct1)
    show "\<forall>s \<in> set (delays_of d). 0 \<le> s \<and> s \<le> sleep_limit e" using h by (elim conjE)
    show "rate_limit_rps d \<le> 0
            \<or> (\<forall>v. limiter_delay e v (rate_limit_rps d) (jitter_percent d) \<le> sleep_limit e)"
      using h by (elim conjE)
    show "\<forall>c. ddg_crawl_delay d = Some c \<longrightarrow> c \<le> sleep_limit e" using h by (elim conjE)
  qed
qed

theorem query_counts_once_while_quota_remains_witness:
  "can_continue google_default
   \<and> list_all (\<lambda>s. 0 \<le> s \<and> s \<le> sleep_limit env_429_five_times) (delays_of google_default)
   \<and> (\<forall>v. limiter_delay env_429_five_times v (rate_limit_rps google_default)
              (jitter_percent google_default) \<le> sleep_limit env_429_five_times)
   \<and> (\<exists>res w'. GoogleCSEProvider_query env_429_five_times google_default ''x'' 10 world0 =
          Some (Inr (res, google_default\<lparr>queries_made := queries_made google_default + 1\<rparr>, w')))
   \<and> can_continue ddg_default
   \<and> list_all (\<lambda>s. 0 \<le> s \<and> s \<le> sleep_limit env_search_always_raises) (delays_of ddg_default)
   \<and> (\<forall>v. limiter_delay env_search_always_raises v (rate_limit_rps ddg_default)
              (jitter_percent ddg_default) \<le> sleep_limit env_search_always_raises)
   \<and> ddg_crawl_delay ddg_default = None
   \<and> (\<exists>res w'. DuckDuckGoProvider_query env_search_always_raises ddg_default ''x'' 10 world0 =
          Inr (res, ddg_default\<lparr>queries_made := queries_made ddg_default + 1\<rparr>, w'))
   \<and> can_continue google_no_credentials \<and> \<not> has_credentials google_no_credentials
   \<and> GoogleCSEProvider_query env_no_credentials google_no_credentials ''x'' 10 world0 =
       Some (Inr ([], google_no_credentials\<lparr>queries_made := queries_made google_no_credentials + 1\<rparr>, world0))
   \<and> \<not> can_continue google_exhausted
   \<and> GoogleCSEProvider_query env0 google_exhausted ''x'' 10 world0 =
       Some (Inr ([], google_exhausted, world0))"
proof -
  have g: "can_continue google_default" by code_simp
  have gd: "\<forall>s \<in> set (delays_of google_default). 0 \<le> s \<and> s \<le> sleep_limit env_429_five_times"
    by (simp add: delays_of_google_default default_sleep_limit)
  have gl: "\<forall>v. limiter_delay env_429_five_times v (rate_limit_rps google_default)
              (jitter_percent google_default) \<le> sleep_limit env_429_five_times"
    by (intro allI default_limiter_delay)
  have d: "can_continue ddg_default" by code_simp
  have dd: "\<forall>s \<in> set (delays_of ddg_default). 0 \<le> s \<and> s \<le> sleep_limit env_search_always_raises"
    by (simp add: delays_of_ddg_default default_sleep_limit)
  have dl: "\<forall>v. limiter_delay env_search_always_raises v (rate_limit_rps ddg_default)
              (jitter_percent ddg_default) \<le> sleep_limit env_search_always_raises"
    by (intro allI default_limiter_delay)
  have dc: "ddg_crawl_delay ddg_default = None" by (rule default_rate_limit)
  have dc': "\<forall>c. ddg_crawl_delay ddg_default = Some c \<longrightarrow> c \<le> sleep_limit env_search_always_raises"
    by (simp add: dc)
  have nc: "can_continue google_no_credentials" "\<not> has_credentials google_no_credentials" by code_simp+
  have ex: "\<not> can_continue google_exhausted" by code_simp
  have ev: "\<forall>i. \<exists>k. \<not> retryable (requests_get_google env_429_five_times (i + k))"
  proof
    fix i
    have "\<not> retryable (requests_get_google env_429_five_times (i + 5))"
      by (simp add: env_429_five_times_def retryable_def)
    then show "\<exists>k. \<not> retryable (requests_get_google env_429_five_times (i + k))" ..
  qed
  note c2 = conjunct2
  have a: "\<exists>res w'. GoogleCSEProvider_query env_429_five_times google_default ''x'' 10 world0 =
          Some (Inr (res, google_default\<lparr>queries_made := queries_made google_default + 1\<rparr>, w'))"
    by (rule query_counts_once_while_quota_remains
               [of google_default env_429_five_times "''x''" 10 world0 ddg_default,
                THEN c2, THEN c2, THEN c2, THEN c2, THEN c2, THEN c2, THEN conjunct1, THEN mp])
       (intro conjI disjI2 g gd gl ev)
  have b: "\<exists>res w'. DuckDuckGoProvider_query env_search_always_raises ddg_default ''x'' 10 world0 =
          Inr (res, ddg_default\<lparr>queries_made := queries_made ddg_default + 1\<rparr>, w')"
    by (rule query_counts_once_while_quota_remains
               [of google_default env_search_always_raises "''x''" 10 world0 ddg_default,
                THEN c2, THEN c2, THEN c2, THEN c2, THEN c2, THEN c2, THEN c2, THEN mp])
       (intro conjI disjI2 d dd dl dc')
  have c: "GoogleCSEProvider_query env_no_credentials google_no_credentials ''x'' 10 world0 =
       Some (Inr ([], google_no_credentials\<lparr>queries_made := queries_made google_no_credentials + 1\<rparr>, world0))"
    by (rule query_counts_once_while_quota_remains
               [of google_no_credentials env_no_credentials "''x''" 10 world0 ddg_default,
                THEN c2, THEN c2, THEN conjunct1, THEN mp])
       (intro conjI nc)
  have e: "GoogleCSEProvider_query env0 google_exhausted ''x'' 10 world0 =
       Some (Inr ([], google_exhausted, world0))"
    by (rule query_counts_once_while_quota_remains
               [of google_exhausted env0 "''x''" 10 world0 ddg_default, THEN conjunct1, THEN mp])
       (rule ex)
  show ?thesis
    by (intro conjI g gd[folded list_all_iff] gl d dd[folded list_all_iff] dl dc nc ex a b c e)
qed

section \<open>Missing credentials\<close>

text \<open>
  Claim C9. A Google provider without credentials and with quota left answers every
  \<^verbatim>\<open>query\<close> with the empty list and \<open>queries_made\<close> one higher, in an unchanged world: no
  HTTP call, no sleep, no log record. The provider lacks credentials exactly when one of
  the two environment variables is empty, and its construction then appends the one
  warning to the log (and nothing otherwise).
\<close>

theorem missing_credentials_no_op_but_counted:
  "(\<not> has_credentials p \<and> can_continue p \<longrightarrow>
      GoogleCSEProvider_query e p kw n w =
        Some (Inr ([], p\<lparr>queries_made := queries_made p + 1\<rparr>, w)))
   \<and> has_credentials (fst (GoogleCSEProvider_init e cfg w)) =
       (os_getenv e (cfg_api_key_env cfg) \<noteq> [] \<and> os_getenv e (cfg_cx_env cfg) \<noteq> [])
   \<and> (\<not> has_credentials (fst (GoogleCSEProvider_init e cfg w)) \<longrightarrow>
        snd (GoogleCSEProvider_init e cfg w) = w\<lparr>logged := logged w @ [missing_credentials_warning]\<rparr>)
   \<and> (has_credentials (fst (GoogleCSEProvider_init e cfg w)) \<longrightarrow>
        snd (GoogleCSEProvider_init e cfg w) = w)"
  by (simp add: google_query_no_credentials GoogleCSEProvider_init_def Let_def
        has_credentials_def logger_call_def)

theorem missing_credentials_no_op_but_counted_witness:
  "\<not> has_credentials google_no_credentials \<and> can_continue google_no_credentials
   \<and> GoogleCSEProvider_query env_no_credentials google_no_credentials ''x'' 10 world0 =
       Some (Inr ([], google_no_credentials\<lparr>queries_made := queries_made google_no_credentials + 1\<rparr>, world0))
   \<and> queries_made google_no_credentials = 0
   \<and> google_no_credentials = fst (GoogleCSEProvider_init env_no_credentials default_cfg world0)
   \<and> snd (GoogleCSEProvider_init env_no_credentials default_cfg world0) =
       world0\<lparr>logged := logged world0 @ [missing_credentials_warning]\<rparr>"
proof -
  have nc: "\<not> has_credentials google_no_credentials" "can_continue google_no_credentials" 
    "queries_made google_no_credentials = 0" by code_simp+
  show ?thesis
    using missing_credentials_no_op_but_counted
            [of google_no_credentials env_no_credentials "''x''" 10 world0 default_cfg] nc
    by (simp add: google_no_credentials_def)
qed

section \<open>Facts about the orchestrator\<close>

lemma provider_can_continue_iff:
  "provider_can_continue p \<longleftrightarrow> provider_queries_made p < provider_quota p"
  by (cases p) (simp_all add: can_continue_def)

lemma provider_query_counts:
  assumes "provider_can_continue prov"
      and "provider_query e prov kw n w = Some (Inr (res, prov', w'))"
  shows "provider_queries_made prov' = provider_queries_made prov + 1
         \<and> provider_quota prov' = provider_quota prov"
proof (cases prov)
  case (Google p)
  with assms(2) obtain p' where q: "GoogleCSEProvider_query e p kw n w = Some (Inr (res, p', w'))"
    and p': "prov' = Google p'"
    by (auto split: option.splits sum.splits)
  from assms(1) Google have "can_continue p" by simp
  then have "p' = p\<lparr>queries_made := queries_made p + 1\<rparr>" using q by (rule google_query_counts)
  then show ?thesis using Google p' by simp
next
  case (DDG p)
  with assms(2) obtain p' where q: "DuckDuckGoProvider_query e p kw n w = Inr (res, p', w')"
    and p': "prov' = DDG p'"
    by (auto split: sum.splits)
  from assms(1) DDG have "can_continue p" by simp
  then have "p' = p\<lparr>queries_made := queries_made p + 1\<rparr>" using q by (rule ddg_query_counts)
  then show ?thesis using DDG p' by simp
qed

lemma for_providers_counts:
  "for_providers e kw n provs all w = Some (Inr (provs', all', w')) \<Longrightarrow>
   list_all2 (\<lambda>p p'. provider_quota p' = provider_quota p \<and>
                       provider_queries_made p' =
                         provider_queries_made p + (if provider_can_continue p then 1 else 0))
             provs provs'"
proof (induction provs arbitrary: all w provs' all' w')
  case Nil
  then show ?case by simp
next
  case (Cons prov rest)
  show ?case
  proof (cases "provider_can_continue prov")
    case False
    with Cons.prems obtain rest' where
      r: "for_providers e kw n rest all (logger_call INFO ''quota reached; skipping'' w) = Some (Inr (rest', all', w'))"
      and p: "provs' = prov # rest'"
      by (auto split: option.splits sum.splits)
    from Cons.IH[OF r] p False show ?thesis by simp
  next
    case True
    with Cons.prems obtain res prov' w1 rest' where
      q: "provider_query e prov kw n w = Some (Inr (res, prov', w1))"
      and r: "for_providers e kw n rest (all \<union> set (unique_sorted res)) w1 = Some (Inr (rest', all', w'))"
      and p: "provs' = prov' # rest'"
      by (auto split: option.splits sum.splits)
    from provider_query_counts[OF True q] Cons.IH[OF r] p True show ?thesis by simp
  qed
qed

lemma for_providers_domains:
  "for_providers e kw n provs all w = Some (Inr (provs', all', w')) \<Longrightarrow>
   finite all \<Longrightarrow> \<forall>d \<in> all. is_valid_domain d \<Longrightarrow>
   finite all' \<and> (\<forall>d \<in> all'. is_valid_domain d)"
proof (induction provs arbitrary: all w provs' all' w')
  case Nil
  then show ?case by simp
next
  case (Cons prov rest)
  show ?case
  proof (cases "provider_can_continue prov")
    case False
    with Cons.prems(1) obtain rest' where
      r: "for_providers e kw n rest all (logger_call INFO ''quota reached; skipping'' w) = Some (Inr (rest', all', w'))"
      by (auto split: option.splits sum.splits)
    from Cons.IH[OF r Cons.prems(2,3)] show ?thesis .
  next
    case True
    with Cons.prems(1) obtain res prov' w1 rest' where
      r: "for_providers e kw n rest (all \<union> set (unique_sorted res)) w1 = Some (Inr (rest', all', w'))"
      by (auto split: option.splits sum.splits)
    have f: "finite (all \<union> set (unique_sorted res))" using Cons.prems(2) by simp
    have v: "\<forall>d \<in> all \<union> set (unique_sorted res). is_valid_domain d"
      using Cons.prems(3) unique_sorted_valid by blast
    from Cons.IH[OF r f v] show ?thesis .
  qed
qed

lemma for_keywords_domains:
  "for_keywords e n kws provs all w = Some (Inr (provs', all', w')) \<Longrightarrow>
   finite all \<Longrightarrow> \<forall>d \<in> all. is_valid_domain d \<Longrightarrow>
   finite all' \<and> (\<forall>d \<in> all'. is_valid_domain d)"
proof (induction kws arbitrary: provs all w)
  case Nil
  then show ?case by simp
next
  case (Cons kw kws)
  from Cons.prems(1) obtain provs1 all1 w1 where
    a: "for_providers e kw n provs all w = Some (Inr (provs1, all1, w1))"
    and b: "for_keywords e n kws provs1 all1 w1 = Some (Inr (provs', all', w'))"
    by (auto split: option.splits sum.splits)
  from for_providers_domains[OF a Cons.prems(2,3)] have "finite all1" "\<forall>d \<in> all1. is_valid_domain d"
    by simp_all
  from Cons.IH[OF b this] show ?case .
qed

lemma for_keywords_counts:
  "for_keywords e n kws provs all w = Some (Inr (provs', all', w')) \<Longrightarrow>
   list_all2 (\<lambda>p p'. provider_quota p' = provider_quota p \<and>
                       provider_queries_made p' =
                         provider_queries_made p
                         + min (int (length kws)) (max 0 (provider_quota p - provider_queries_made p)))
             provs provs'"
proof (induction kws arbitrary: provs all w)
  case Nil
  then show ?case by (simp add: list_all2_same)
next
  case (Cons kw kws)
  from Cons.prems(1) obtain provs1 all1 w1 where
    a: "for_providers e kw n provs all w = Some (Inr (provs1, all1, w1))"
    and b: "for_keywords e n kws provs1 all1 w1 = Some (Inr (provs', all', w'))"
    by (auto split: option.splits sum.splits)
  show ?case
  proof (rule list_all2_trans[OF _ for_providers_counts[OF a] Cons.IH[OF b]])
    fix p p1 p'
    assume 1: "provider_quota p1 = provider_quota p \<and>
               provider_queries_made p1 =
                 provider_queries_made p + (if provider_can_continue p then 1 else 0)"
       and 2: "provider_quota p' = provider_quota p1 \<and>
               provider_queries_made p' =
                 provider_queries_made p1
                 + min (int (length kws)) (max 0 (provider_quota p1 - provider_queries_made p1))"
    show "provider_quota p' = provider_quota p \<and>
          provider_queries_made p' =
            provider_queries_made p
            + min (int (length (kw # kws))) (max 0 (provider_quota p - provider_queries_made p))"
    proof (cases "provider_can_continue p")
      case True
      then have "provider_queries_made p < provider_quota p" by (simp add: provider_can_continue_iff)
      with 1 2 True show ?thesis by (simp add: min_def max_def)
    next
      case False
      then have "\<not> provider_queries_made p < provider_quota p" by (simp add: provider_can_continue_iff)
      with 1 2 False show ?thesis by (simp add: min_def max_def)
    qed
  qed
qed

lemma logger_call_fields:
  "http_calls (logger_call lv msg w) = http_calls w"
  "search_calls (logger_call lv msg w) = search_calls w"
  "sleeps (logger_call lv msg w) = sleeps w"
  "limiter_sleeps (logger_call lv msg w) = limiter_sleeps w"
  "out_file (logger_call lv msg w) = out_file w"
  "logged (logger_call lv msg w) = logged w @ [(lv, msg)]"
  by (simp_all add: logger_call_def)

lemma dry_run_report_fields:
  "http_calls (dry_run_report e ps w) = http_calls w
   \<and> search_calls (dry_run_report e ps w) = search_calls w
   \<and> sleeps (dry_run_report e ps w) = sleeps w
   \<and> limiter_sleeps (dry_run_report e ps w) = limiter_sleeps w
   \<and> out_file (dry_run_report e ps w) = out_file w
   \<and> logged (dry_run_report e ps w) = logged w @ map (dry_run_line e) ps"
  by (induction e ps w rule: dry_run_report.induct) (simp_all add: logger_call_fields)

lemma GoogleCSEProvider_init_fresh:
  "GoogleCSEProvider_init e cfg w = (g, w1) \<Longrightarrow>
     queries_made g = 0
     \<and> w1 = w\<lparr>logged := logged w @ (if has_credentials g then [] else [missing_credentials_warning])\<rparr>"
  by (auto simp: GoogleCSEProvider_init_def Let_def logger_call_def split: if_splits)

lemma DuckDuckGoProvider_init_fresh:
  "DuckDuckGoProvider_init e cfg w = (d, w1) \<Longrightarrow>
     queries_made d = 0 \<and> w1 = w\<lparr>http_calls := http_calls w + 1\<rparr>"
  by (auto simp: DuckDuckGoProvider_init_def fetch_robots_and_delay_def Let_def
           split: http_result.splits if_splits)

lemma append_google_raises: "append_google e a cfg ps w = Inl (x, w1) \<Longrightarrow> w1 = w"
  by (auto simp: append_google_def split: if_splits sum.splits prod.splits)

lemma append_google_returns:
  assumes "append_google e a cfg ps w = Inr (ps', w1)"
  shows "(ps' = ps \<and> w1 = w)
         \<or> (\<exists>g. ps' = ps @ [Google g] \<and> queries_made g = 0
                 \<and> w1 = w\<lparr>logged := logged w @ (if has_credentials g then []
                                                    else [missing_credentials_warning])\<rparr>)"
proof (cases "ps' = ps \<and> w1 = w")
  case True
  then show ?thesis by simp
next
  case False
  with assms obtain settings g where "GoogleCSEProvider_init e settings w = (g, w1)"
    and "ps' = ps @ [Google g]"
    by (auto simp: append_google_def split: if_splits sum.splits prod.splits)
  then show ?thesis using GoogleCSEProvider_init_fresh by blast
qed

lemma append_duckduckgo_raises: "append_duckduckgo e a cfg ps w = Inl (x, w1) \<Longrightarrow> w1 = w"
  by (auto simp: append_duckduckgo_def split: if_splits sum.splits prod.splits)

lemma append_duckduckgo_returns:
  assumes "append_duckduckgo e a cfg ps w = Inr (ps', w1)"
  shows "(ps' = ps \<and> w1 = w)
         \<or> (\<exists>d. ps' = ps @ [DDG d] \<and> queries_made d = 0
                 \<and> w1 = w\<lparr>http_calls := http_calls w + 1\<rparr>)"
proof (cases "ps' = ps \<and> w1 = w")
  case True
  then show ?thesis by simp
next
  case False
  with assms obtain settings d where "DuckDuckGoProvider_init e settings w = (d, w1)"
    and "ps' = ps @ [DDG d]"
    by (auto simp: append_duckduckgo_def split: if_splits sum.splits prod.splits)
  then show ?thesis using DuckDuckGoProvider_init_fresh by blast
qed

lemma build_providers_raises:
  assumes "build_providers e a cfg w = Inl (x, w1)"
  shows "http_calls w1 = http_calls w \<and> search_calls w1 = search_calls w \<and> sleeps w1 = sleeps w
         \<and> limiter_sleeps w1 = limiter_sleeps w \<and> out_file w1 = out_file w"
proof (cases "append_google e a cfg [] w")
  case (Inl y)
  with assms have "append_google e a cfg [] w = Inl (x, w1)" by (simp add: build_providers_def)
  then have "w1 = w" by (rule append_google_raises)
  then show ?thesis by simp
next
  case (Inr r)
  obtain ps0 w0 where r: "r = (ps0, w0)" by (cases r)
  with assms Inr have "append_duckduckgo e a cfg ps0 w0 = Inl (x, w1)"
    by (simp add: build_providers_def)
  then have "w1 = w0" by (rule append_duckduckgo_raises)
  moreover from append_google_returns[OF Inr[unfolded r]]
  have "http_calls w0 = http_calls w \<and> search_calls w0 = search_calls w \<and> sleeps w0 = sleeps w
         \<and> limiter_sleeps w0 = limiter_sleeps w \<and> out_file w0 = out_file w" by auto
  ultimately show ?thesis by simp
qed

lemma build_providers_returns:
  assumes "build_providers e a cfg w = Inr (ps, w1)"
  shows "(\<forall>p \<in> set ps. provider_queries_made p = 0)
         \<and> (ps = [] \<longrightarrow> w1 = w)
         \<and> http_calls w1 = http_calls w + (if \<exists>d. DDG d \<in> set ps then 1 else 0)
         \<and> search_calls w1 = search_calls w \<and> sleeps w1 = sleeps w
         \<and> limiter_sleeps w1 = limiter_sleeps w \<and> out_file w1 = out_file w
         \<and> logged w1 = logged w @ (if \<exists>g. Google g \<in> set ps \<and> \<not> has_credentials g
                                    then [missing_credentials_warning] else [])"
proof -
  obtain ps0 w0 where g: "append_google e a cfg [] w = Inr (ps0, w0)"
    and d: "append_duckduckgo e a cfg ps0 w0 = Inr (ps, w1)"
    using assms by (auto simp: build_providers_def split: sum.splits)
  from append_google_returns[OF g] consider
      (none) "ps0 = []" "w0 = w"
    | (some) g' where "ps0 = [Google g']" "queries_made g' = 0"
        "w0 = w\<lparr>logged := logged w @ (if has_credentials g' then []
                                         else [missing_credentials_warning])\<rparr>"
    by auto
  then show ?thesis
  proof cases
    case none
    from append_duckduckgo_returns[OF d] show ?thesis using none by auto
  next
    case some
    from append_duckduckgo_returns[OF d] show ?thesis using some by auto
  qed
qed

lemma main_exits_out_file: "main e a w = Some (Exits code w') \<Longrightarrow> out_file w' = out_file w"
proof (cases "load_config (config_at_path e)")
  case (Inl err)
  assume "main e a w = Some (Exits code w')"
  then show ?thesis using Inl by (auto simp: main_def logger_call_fields)
next
  case (Inr cfg)
  assume m: "main e a w = Some (Exits code w')"
  show ?thesis
  proof (cases "build_providers e a cfg w")
    case (Inl y)
    with m Inr show ?thesis by (auto simp: main_def split: prod.splits)
  next
    case r: (Inr r)
    obtain providers w1 where b: "build_providers e a cfg w = Inr (providers, w1)"
      using r by (cases r) simp
    then have w1: "out_file w1 = out_file w" using build_providers_returns by blast
    from m Inr b show ?thesis
      by (auto simp: main_def logger_call_fields dry_run_report_fields w1
               split: if_splits option.splits sum.splits prod.splits fs_result.splits)
  qed
qed

lemma main_returns_written:
  assumes "main e a w = Some (Returns w')"
  shows "\<exists>all_domains. finite all_domains \<and> (\<forall>d \<in> all_domains. is_valid_domain d)
           \<and> out_file w' = Some (write_lines (sorted_list_of_set all_domains))"
proof -
  from assms obtain cfg providers w1 providers' all_domains w2 where
    run: "for_keywords e (arg_max_results a) (keywords_of cfg) providers {} w1
            = Some (Inr (providers', all_domains, w2))"
    and w': "w' = logger_call INFO ''discovery summary''
                   (w2\<lparr>out_file := Some (write_lines (sorted_list_of_set all_domains))\<rparr>)"
    by (auto simp: main_def split: sum.splits prod.splits if_splits option.splits fs_result.splits)
  from for_keywords_domains[OF run] have "finite all_domains"
    and "\<forall>d \<in> all_domains. is_valid_domain d" by simp_all
  moreover have "out_file w' = Some (write_lines (sorted_list_of_set all_domains))"
    using w' by (simp add: logger_call_def)
  ultimately show ?thesis by blast
qed

section \<open>The quota counter over a run\<close>

text \<open>
  Claim C8. Over the inner loop of one keyword and over the loops of any list of keywords
  (so after every keyword of a run), each provider keeps its quota threshold, its
  \<open>queries_made\<close> never decreases, and it grows by exactly the number of keywords at which
  the provider still had quota: the smaller of the number of keywords and the quota that
  was left. It is therefore at most the number of (keyword, provider) pairs processed, and,
  for a provider that starts at 0 with a threshold that is not negative, at most the
  threshold and so at most the threshold plus the pairs attempted. Every provider that
  \<^verbatim>\<open>main\<close> constructs starts at 0.
\<close>

theorem queries_made_never_decreases_and_is_bounded:
  "(for_providers e kw n provs all w = Some (Inr (provs1, all1, w1)) \<longrightarrow>
      length provs1 = length provs \<and>
      (\<forall>i. i < length provs \<longrightarrow>
         provider_quota (provs1 ! i) = provider_quota (provs ! i)
         \<and> provider_queries_made (provs ! i) \<le> provider_queries_made (provs1 ! i)
         \<and> provider_queries_made (provs1 ! i) \<le> provider_queries_made (provs ! i) + 1))
   \<and> (for_keywords e n kws provs all w = Some (Inr (provs', all', w')) \<longrightarrow>
      length provs' = length provs \<and>
      (\<forall>i. i < length provs \<longrightarrow>
         provider_quota (provs' ! i) = provider_quota (provs ! i)
         \<and> provider_queries_made (provs ! i) \<le> provider_queries_made (provs' ! i)
         \<and> provider_queries_made (provs' ! i) =
             provider_queries_made (provs ! i)
             + min (int (length kws))
                   (max 0 (provider_quota (provs ! i) - provider_queries_made (provs ! i)))
         \<and> provider_queries_made (provs' ! i) \<le> provider_queries_made (provs ! i) + int (length kws)
         \<and> (provider_queries_made (provs ! i) = 0 \<and> 0 \<le> provider_quota (provs ! i) \<longrightarrow>
              provider_queries_made (provs' ! i) \<le> provider_quota (provs ! i)
              \<and> provider_queries_made (provs' ! i) \<le> provider_quota (provs ! i) + int (length kws))))
   \<and> (build_providers e a cfg w = Inr (built, wb) \<longrightarrow>
        (\<forall>p. p \<in> set built \<longrightarrow> provider_queries_made p = 0))"
proof (intro conjI impI allI)
  assume r: "for_providers e kw n provs all w = Some (Inr (provs1, all1, w1))"
  note l = for_providers_counts[OF r, unfolded list_all2_conv_all_nth]
  show "length provs1 = length provs" using l by simp
  fix i assume i: "i < length provs"
  with l have q: "provider_quota (provs1 ! i) = provider_quota (provs ! i)"
    and m: "provider_queries_made (provs1 ! i) =
            provider_queries_made (provs ! i) + (if provider_can_continue (provs ! i) then 1 else 0)"
    by simp_all
  show "provider_quota (provs1 ! i) = provider_quota (provs ! i)" by (rule q)
  show "provider_queries_made (provs ! i) \<le> provider_queries_made (provs1 ! i)" using m by simp
  show "provider_queries_made (provs1 ! i) \<le> provider_queries_made (provs ! i) + 1" using m by simp
next
  assume r: "for_keywords e n kws provs all w = Some (Inr (provs', all', w'))"
  note l = for_keywords_counts[OF r, unfolded list_all2_conv_all_nth]
  show "length provs' = length provs" using l by simp
  fix i assume i: "i < length provs"
  with l have q: "provider_quota (provs' ! i) = provider_quota (provs ! i)"
    and m: "provider_queries_made (provs' ! i) =
            provider_queries_made (provs ! i)
            + min (int (length kws))
                  (max 0 (provider_quota (provs ! i) - provider_queries_made (provs ! i)))"
    by simp_all
  show "provider_quota (provs' ! i) = provider_quota (provs ! i)" by (rule q)
  show "provider_queries_made (provs ! i) \<le> provider_queries_made (provs' ! i)" using m by simp
  show "provider_queries_made (provs' ! i) =
          provider_queries_made (provs ! i)
          + min (int (length kws))
                (max 0 (provider_quota (provs ! i) - provider_queries_made (provs ! i)))"
    by (rule m)
  show "provider_queries_made (provs' ! i) \<le> provider_queries_made (provs ! i) + int (length kws)"
    using m by simp
  assume z: "provider_queries_made (provs ! i) = 0 \<and> 0 \<le> provider_quota (provs ! i)"
  show "provider_queries_made (provs' ! i) \<le> provider_quota (provs ! i)" using m z by simp
  show "provider_queries_made (provs' ! i) \<le> provider_quota (provs ! i) + int (length kws)"
    using m z by simp
next
  fix p assume "build_providers e a cfg w = Inr (built, wb)" "p \<in> set built"
  then show "provider_queries_made p = 0" using build_providers_returns by blast
qed

theorem queries_made_never_decreases_and_is_bounded_witness:
  "\<exists>provs' all' w'.
     for_keywords env_429_five_times 1 [''a'', ''b'', ''c'']
       [Google (google_default\<lparr>daily_quota_threshold := 2\<rparr>), DDG ddg_default] {} world0
       = Some (Inr (provs', all', w'))
     \<and> length provs' = 2
     \<and> provider_queries_made (provs' ! 0) = 2
     \<and> provider_queries_made (provs' ! 1) = 3
     \<and> provider_quota (provs' ! 0) = 2"
proof -
  define provs where "provs = [Google (google_default\<lparr>daily_quota_threshold := 2\<rparr>), DDG ddg_default]"
  have "(case for_keywords env_429_five_times 1 [''a'', ''b'', ''c''] provs {} world0 of
           Some (Inr (provs', all', w')) \<Rightarrow> True | _ \<Rightarrow> False)"
    unfolding provs_def by code_simp
  then obtain provs' all' w' where
    run: "for_keywords env_429_five_times 1 [''a'', ''b'', ''c''] provs {} world0
            = Some (Inr (provs', all', w'))"
    by (auto split: option.splits sum.splits)
  have len0: "length provs = 2" by (simp add: provs_def)
  have q0: "provider_queries_made (provs ! 0) = 0" "provider_quota (provs ! 0) = 2"
    unfolding provs_def by code_simp+
  have q1: "provider_queries_made (provs ! 1) = 0" "provider_quota (provs ! 1) = 10 ^ 9"
    unfolding provs_def by code_simp+
  note t = queries_made_never_decreases_and_is_bounded
             [of env_429_five_times "''a''" 1 provs "{}" world0 provs' all' w'
                 "[''a'', ''b'', ''c'']" provs' all' w',
              THEN conjunct2, THEN conjunct1, THEN mp, OF run]
  note len = t[THEN conjunct1]
  note t0 = t[THEN conjunct2, THEN spec, of 0, THEN mp]
  note t1 = t[THEN conjunct2, THEN spec, of 1, THEN mp]
  have i0: "0 < length provs" and i1: "1 < length provs" using len0 by simp_all
  have a: "provider_queries_made (provs' ! 0) = 2"
    using t0[OF i0, THEN conjunct2, THEN conjunct2, THEN conjunct1] unfolding q0 by simp
  have a': "provider_quota (provs' ! 0) = 2"
    using t0[OF i0, THEN conjunct1] unfolding q0 by simp
  have b: "provider_queries_made (provs' ! 1) = 3"
    using t1[OF i1, THEN conjunct2, THEN conjunct2, THEN conjunct1] unfolding q1 by simp
  have l: "length provs' = 2" using len len0 by simp
  show ?thesis using run l a a' b unfolding provs_def by blast
qed

section \<open>The output file\<close>

text \<open>
  When \<^verbatim>\<open>main\<close> returns, the set of domains it has collected is finite and every member
  passes \<open>is_valid_domain\<close>; the text written is that of the set's sorted list, each
  member followed by a newline.
\<close>

lemma written_list_sorted_unique_valid:
  assumes "main e a w = Some (Returns w')"
  shows "\<exists>out_list. out_file w' = Some (write_lines out_list)
           \<and> sorted out_list \<and> distinct out_list \<and> (\<forall>d \<in> set out_list. is_valid_domain d)"
proof -
  from main_returns_written[OF assms] obtain all_domains where
    "finite all_domains" "\<forall>d \<in> all_domains. is_valid_domain d"
    "out_file w' = Some (write_lines (sorted_list_of_set all_domains))" by blast
  then show ?thesis by (intro exI[of _ "sorted_list_of_set all_domains"]) simp
qed

text \<open>
  A text is the lines of at most one list of strings that hold no newline: the entries a
  reader of the file finds.
\<close>

lemma line_unique:
  assumes "c \<notin> set x" "c \<notin> set y" "x @ c # r = y @ c # s"
  shows "x = y \<and> r = s"
proof -
  have t: "c \<notin> set z \<Longrightarrow> takeWhile (\<lambda>b. b \<noteq> c) (z @ c # t) = z" for z t
    by (induction z) auto
  have "takeWhile (\<lambda>b. b \<noteq> c) (x @ c # r) = x" using assms(1) by (rule t)
  moreover have "takeWhile (\<lambda>b. b \<noteq> c) (y @ c # s) = y" using assms(2) by (rule t)
  ultimately have "x = y" using assms(3) by simp
  then show ?thesis using assms(3) by simp
qed

lemma write_lines_unique:
  assumes "\<forall>d \<in> set xs. CHR 0x0A \<notin> set d" "\<forall>d \<in> set ys. CHR 0x0A \<notin> set d"
          "write_lines xs = write_lines ys"
  shows "xs = ys"
  using assms
proof (induction xs arbitrary: ys)
  case Nil
  then show ?case by (cases ys) (simp_all add: write_lines_def)
next
  case (Cons x xs)
  then obtain y ys' where ys: "ys = y # ys'" by (cases ys) (simp_all add: write_lines_def)
  from Cons.prems(3) have "x @ CHR 0x0A # write_lines xs = y @ CHR 0x0A # write_lines ys'"
    by (simp add: ys write_lines_def)
  moreover have "CHR 0x0A \<notin> set x" "CHR 0x0A \<notin> set y" using Cons.prems(1,2) ys by simp_all
  ultimately have xy: "x = y \<and> write_lines xs = write_lines ys'" by (intro line_unique)
  then have "x = y" "write_lines xs = write_lines ys'" by simp_all
  moreover from this(2) have "xs = ys'" using Cons.IH[of ys'] Cons.prems(1,2) ys by simp
  ultimately show ?case using ys by simp
qed

lemma newline_hit_entries:
  assumes "\<forall>d \<in> set entries. CHR 0x0A \<notin> set d"
      and "write_lines entries = ''a.com'' @ [CHR 0x0A] @ ''a.com'' @ [CHR 0x0A, CHR 0x0A]"
  shows "entries = [''a.com'', ''a.com'', []]"
proof (rule write_lines_unique[OF assms(1)])
  show "\<forall>d \<in> set [''a.com'', ''a.com'', []]. CHR 0x0A \<notin> set d" by simp
  show "write_lines entries = write_lines [''a.com'', ''a.com'', []]"
    using assms(2) by (simp add: write_lines_def)
qed

text \<open>
  Claim C4 fails on the code. \<^verbatim>\<open>$\<close> in \<^verbatim>\<open>re.match(r'^[a-z0-9.-]+\.[a-z]{2,}$', domain)\<close>
  also matches before a newline that ends the string, so \<open>is_valid_domain\<close> accepts the
  host \<^verbatim>\<open>a.com\<close> followed by a newline, which \<open>normalize_domain\<close> returns for a URL with a
  newline between host and path. With the two hits \<^verbatim>\<open>http://a.com/x\<close> and
  \<^verbatim>\<open>http://a.com\n/y\<close> the run-wide set holds both \<^verbatim>\<open>a.com\<close> and \<^verbatim>\<open>a.com\n\<close>, and
  \<^verbatim>\<open>f.write(d + "\n")\<close> writes the text \<^verbatim>\<open>a.com\na.com\n\n\<close>: the newline-delimited list
  \<^verbatim>\<open>a.com\<close>, \<^verbatim>\<open>a.com\<close> and the empty string, which repeats a domain and holds an entry
  that does not pass \<open>is_valid_domain\<close>.
\<close>

theorem newline_hit_written_twice:
  "main env_newline_hit args_run world0 =
     Some (Returns \<lparr>http_calls = 1, search_calls = 1, sleeps = [], limiter_sleeps = 1,
                     logged = [(INFO, ''ddg results''), (INFO, ''discovery summary'')],
                     out_file = Some (''a.com'' @ [CHR 0x0A] @ ''a.com'' @ [CHR 0x0A, CHR 0x0A])\<rparr>)
   \<and> unique_sorted [''http://a.com/x'', ''http://a.com'' @ [CHR 0x0A] @ ''/y'']
       = [''a.com'', ''a.com'' @ [CHR 0x0A]]
   \<and> is_valid_domain (''a.com'' @ [CHR 0x0A])
   \<and> write_lines [''a.com'', ''a.com'' @ [CHR 0x0A]]
       = ''a.com'' @ [CHR 0x0A] @ ''a.com'' @ [CHR 0x0A, CHR 0x0A]
   \<and> write_lines [''a.com'', ''a.com'', []]
       = ''a.com'' @ [CHR 0x0A] @ ''a.com'' @ [CHR 0x0A, CHR 0x0A]
   \<and> \<not> distinct [''a.com'', ''a.com'', []]
   \<and> \<not> is_valid_domain []"
  by code_simp

section \<open>The dry run\<close>

text \<open>
  Claim C3 as stated fails: with both credentials missing and both providers selected, the
  dry run logs the missing credentials as an error and still exits with status 0, and the
  construction of the DuckDuckGo provider, which comes before the dry-run branch, has
  fetched robots.txt: one HTTP call.
\<close>

theorem dry_run_fetches_robots_and_exits_zero:
  "main env_no_credentials args_dry_run world0 =
     Some (Exits 0
       \<lparr>http_calls = 1, search_calls = 0, sleeps = [], limiter_sleeps = 0,
        logged =
          [(WARNING, ''GoogleCSEProvider missing API key or CX; provider will return empty results.''),
           (INFO, ''Dry-run: validating providers...''),
           (ERROR, ''Google CSE: missing credentials (GOOGLE_API_KEY or GOOGLE_CSE_ID)''),
           (INFO, ''DuckDuckGo: library available''),
           (INFO, ''Config valid'')],
        out_file = None\<rparr>)
   \<and> arg_dry_run args_dry_run
   \<and> os_getenv env_no_credentials ''GOOGLE_API_KEY'' = []
   \<and> os_getenv env_no_credentials ''GOOGLE_CSE_ID'' = []"
  by code_simp

text \<open>
  The providers are constructed before the dry-run branch and outside every \<^verbatim>\<open>try\<close>. With
  \<^verbatim>\<open>daily_quota_threshold: lots\<close> in the Google entry, \<^verbatim>\<open>int("lots")\<close> raises \<^verbatim>\<open>ValueError\<close>
  out of \<^verbatim>\<open>main\<close>; with a list under \<^verbatim>\<open>providers\<close>, \<^verbatim>\<open>providers_cfg.get\<close> raises
  \<^verbatim>\<open>AttributeError\<close>. Either dry run ends with exit status 1 and an empty log.
\<close>

lemma dry_run_ended_by_provider_settings:
  "main env_bad_setting args_dry_run world0 = Some (Raises ValueError world0)
   \<and> main env_providers_list args_dry_run world0 = Some (Raises AttributeError world0)
   \<and> exit_status (Raises ValueError world0) = 1"
  by code_simp

text \<open>
  Claim C3, amended. In dry-run mode \<^verbatim>\<open>main\<close> always ends, with exit status 2 when the
  configuration does not load, 1 (an exception nothing catches) when the construction of a
  selected provider raises, 3 when no provider is selected and enabled, and 0 otherwise,
  whether or not credentials or the search library are present. In the last case the log
  gains, in this order, the warning of a Google provider constructed without credentials,
  the opening line, one line for each provider (credentials missing or present, search
  library missing or available) and the closing line. The run starts no search, sleeps
  never and writes no output; its only HTTP call is the robots.txt request of the
  DuckDuckGo provider's construction, made exactly when that provider is constructed.
\<close>

theorem dry_run_exit_code_and_calls:
  "(arg_dry_run a \<longrightarrow>
      (\<exists>en. main e a w = Some en
         \<and> exit_status en =
             (case load_config (config_at_path e) of
                Inl err \<Rightarrow> 2
              | Inr cfg \<Rightarrow>
                  (case build_providers e a cfg w of
                     Inl x \<Rightarrow> 1
                   | Inr (providers, w1) \<Rightarrow> if providers = [] then 3 else 0))))
   \<and> (arg_dry_run a \<and> load_config (config_at_path e) = Inl err \<longrightarrow>
        main e a w = Some (Exits 2 (logger_call ERROR ''Config load failed'' w)))
   \<and> (arg_dry_run a \<and> load_config (config_at_path e) = Inr cfg
        \<and> build_providers e a cfg w = Inl (x, wx) \<longrightarrow>
        main e a w = Some (Raises x wx)
        \<and> http_calls wx = http_calls w \<and> search_calls wx = search_calls w
        \<and> sleeps wx = sleeps w \<and> limiter_sleeps wx = limiter_sleeps w
        \<and> out_file wx = out_file w)
   \<and> (arg_dry_run a \<and> load_config (config_at_path e) = Inr cfg
        \<and> build_providers e a cfg w = Inr ([], w1) \<longrightarrow>
        main e a w = Some (Exits 3 (logger_call ERROR ''No providers enabled/selected'' w)))
   \<and> (arg_dry_run a \<and> load_config (config_at_path e) = Inr cfg
        \<and> build_providers e a cfg w = Inr (providers, w1) \<and> providers \<noteq> [] \<longrightarrow>
        (\<exists>w'. main e a w = Some (Exits 0 w')
           \<and> logged w' =
               logged w
               @ (if \<exists>g. Google g \<in> set providers \<and> \<not> has_credentials g
                  then [missing_credentials_warning] else [])
               @ [(INFO, ''Dry-run: validating providers...'')]
               @ map (dry_run_line e) providers
               @ [(INFO, ''Config valid'')]
           \<and> http_calls w' = http_calls w + (if \<exists>d. DDG d \<in> set providers then 1 else 0)
           \<and> search_calls w' = search_calls w
           \<and> sleeps w' = sleeps w
           \<and> limiter_sleeps w' = limiter_sleeps w
           \<and> out_file w' = out_file w))"
proof (intro conjI impI)
  assume dr: "arg_dry_run a"
  show "\<exists>en. main e a w = Some en
         \<and> exit_status en =
             (case load_config (config_at_path e) of
                Inl err \<Rightarrow> 2
              | Inr cfg \<Rightarrow>
                  (case build_providers e a cfg w of
                     Inl x \<Rightarrow> 1
                   | Inr (providers, w1) \<Rightarrow> if providers = [] then 3 else 0))"
  proof (cases "load_config (config_at_path e)")
    case (Inl err)
    then show ?thesis by (simp add: main_def)
  next
    case c: (Inr cfg)
    show ?thesis
    proof (cases "build_providers e a cfg w")
      case (Inl y)
      obtain x wx where "y = (x, wx)" by (cases y)
      with c Inl show ?thesis by (simp add: main_def)
    next
      case (Inr r)
      obtain providers w1 where "r = (providers, w1)" by (cases r)
      with c Inr dr show ?thesis by (simp add: main_def)
    qed
  qed
next
  assume "arg_dry_run a \<and> load_config (config_at_path e) = Inl err"
  then show "main e a w = Some (Exits 2 (logger_call ERROR ''Config load failed'' w))"
    by (simp add: main_def)
next
  assume h: "arg_dry_run a \<and> load_config (config_at_path e) = Inr cfg
             \<and> build_providers e a cfg w = Inl (x, wx)"
  then show "main e a w = Some (Raises x wx)" by (simp add: main_def)
  from h have b: "build_providers e a cfg w = Inl (x, wx)" by simp
  note f = build_providers_raises[OF b]
  show "http_calls wx = http_calls w" using f by simp
  show "search_calls wx = search_calls w" using f by simp
  show "sleeps wx = sleeps w" using f by simp
  show "limiter_sleeps wx = limiter_sleeps w" using f by simp
  show "out_file wx = out_file w" using f by simp
next
  assume h: "arg_dry_run a \<and> load_config (config_at_path e) = Inr cfg
             \<and> build_providers e a cfg w = Inr ([], w1)"
  then have b: "build_providers e a cfg w = Inr ([], w1)" by simp
  have "w1 = w" using build_providers_returns[OF b] by simp
  then show "main e a w = Some (Exits 3 (logger_call ERROR ''No providers enabled/selected'' w))"
    using h by (simp add: main_def)
next
  assume h: "arg_dry_run a \<and> load_config (config_at_path e) = Inr cfg
             \<and> build_providers e a cfg w = Inr (providers, w1) \<and> providers \<noteq> []"
  then have b: "build_providers e a cfg w = Inr (providers, w1)" by simp
  note f = build_providers_returns[OF b]
  define w' where "w' = logger_call INFO ''Config valid''
                          (dry_run_report e providers
                             (logger_call INFO ''Dry-run: validating providers...'' w1))"
  have m: "main e a w = Some (Exits 0 w')" using h by (simp add: main_def w'_def)
  have l: "logged w' = logged w1 @ [(INFO, ''Dry-run: validating providers...'')]
                        @ map (dry_run_line e) providers @ [(INFO, ''Config valid'')]"
    by (simp add: w'_def logger_call_fields dry_run_report_fields)
  have l1: "logged w1 = logged w @ (if \<exists>g. Google g \<in> set providers \<and> \<not> has_credentials g
                                    then [missing_credentials_warning] else [])"
    using f by (elim conjE)
  have o: "http_calls w' = http_calls w1" "search_calls w' = search_calls w1"
          "sleeps w' = sleeps w1" "limiter_sleeps w' = limiter_sleeps w1" "out_file w' = out_file w1"
    by (simp_all add: w'_def logger_call_fields dry_run_report_fields)
  have "logged w' =
               logged w
               @ (if \<exists>g. Google g \<in> set providers \<and> \<not> has_credentials g
                  then [missing_credentials_warning] else [])
               @ [(INFO, ''Dry-run: validating providers...'')]
               @ map (dry_run_line e) providers
               @ [(INFO, ''Config valid'')]"
    unfolding l l1 by simp
  moreover have "http_calls w' = http_calls w + (if \<exists>d. DDG d \<in> set providers then 1 else 0)"
    unfolding o using f by (elim conjE)
  moreover have "search_calls w' = search_calls w" unfolding o using f by (elim conjE)
  moreover have "sleeps w' = sleeps w" unfolding o using f by (elim conjE)
  moreover have "limiter_sleeps w' = limiter_sleeps w" unfolding o using f by (elim conjE)
  moreover have "out_file w' = out_file w" unfolding o using f by (elim conjE)
  ultimately show "\<exists>w'. main e a w = Some (Exits 0 w')
           \<and> logged w' =
               logged w
               @ (if \<exists>g. Google g \<in> set providers \<and> \<not> has_credentials g
                  then [missing_credentials_warning] else [])
               @ [(INFO, ''Dry-run: validating providers...'')]
               @ map (dry_run_line e) providers
               @ [(INFO, ''Config valid'')]
           \<and> http_calls w' = http_calls w + (if \<exists>d. DDG d \<in> set providers then 1 else 0)
           \<and> search_calls w' = search_calls w
           \<and> sleeps w' = sleeps w
           \<and> limiter_sleeps w' = limiter_sleeps w
           \<and> out_file w' = out_file w"
    using m by (intro exI[of _ w'] conjI)
qed

theorem dry_run_exit_code_and_calls_witness:
  "arg_dry_run args_dry_run
   \<and> load_config (config_at_path env_no_credentials) =
       Inr \<lparr>cfg_keywords = KwList [''plumber austin''], cfg_providers = ProvidersEmpty\<rparr>
   \<and> build_providers env_no_credentials args_dry_run
        \<lparr>cfg_keywords = KwList [''plumber austin''], cfg_providers = ProvidersEmpty\<rparr> world0 =
       Inr ([Google google_no_credentials, DDG ddg_default],
            world0\<lparr>http_calls := 1, logged := [missing_credentials_warning]\<rparr>)
   \<and> (\<exists>w'. main env_no_credentials args_dry_run world0 = Some (Exits 0 w')
         \<and> logged w' =
             [missing_credentials_warning,
              (INFO, ''Dry-run: validating providers...''),
              (ERROR, ''Google CSE: missing credentials (GOOGLE_API_KEY or GOOGLE_CSE_ID)''),
              (INFO, ''DuckDuckGo: library available''),
              (INFO, ''Config valid'')]
         \<and> http_calls w' = 1 \<and> search_calls w' = 0 \<and> sleeps w' = [] \<and> limiter_sleeps w' = 0
         \<and> out_file w' = None)
   \<and> (\<exists>en. main env_bad_setting args_dry_run world0 = Some en \<and> exit_status en = 1)"
proof -
  define cfg0 where "cfg0 = \<lparr>cfg_keywords = KwList [''plumber austin''], cfg_providers = ProvidersEmpty\<rparr>"
  define ps where "ps = [Google google_no_credentials, DDG ddg_default]"
  define w1 where "w1 = world0\<lparr>http_calls := 1, logged := [missing_credentials_warning]\<rparr>"
  have dr: "arg_dry_run args_dry_run" by code_simp
  have lc: "load_config (config_at_path env_no_credentials) = Inr cfg0"
    by (simp add: env_no_credentials_def env0_def load_config_def cfg0_def)
  have bp: "build_providers env_no_credentials args_dry_run cfg0 world0 = Inr (ps, w1)"
    unfolding cfg0_def ps_def w1_def by code_simp
  have ne: "ps \<noteq> []" by (simp add: ps_def)
  have nc: "\<not> has_credentials google_no_credentials" by code_simp
  have g: "\<exists>g. Google g \<in> set ps \<and> \<not> has_credentials g"
    unfolding ps_def using nc by (intro exI[of _ google_no_credentials]) simp
  have d: "\<exists>d. DDG d \<in> set ps" unfolding ps_def by (intro exI[of _ ddg_default]) simp
  have ln: "map (dry_run_line env_no_credentials) ps =
              [(ERROR, ''Google CSE: missing credentials (GOOGLE_API_KEY or GOOGLE_CSE_ID)''),
               (INFO, ''DuckDuckGo: library available'')]"
    unfolding ps_def by code_simp
  have w0: "logged world0 = []" "http_calls world0 = 0" "search_calls world0 = 0"
    "sleeps world0 = []" "limiter_sleeps world0 = 0" "out_file world0 = None"
    by (simp_all add: world0_def)
  note c2 = conjunct2
  have "\<exists>w'. main env_no_credentials args_dry_run world0 = Some (Exits 0 w')
           \<and> logged w' =
               logged world0
               @ (if \<exists>g. Google g \<in> set ps \<and> \<not> has_credentials g
                  then [missing_credentials_warning] else [])
               @ [(INFO, ''Dry-run: validating providers...'')]
               @ map (dry_run_line env_no_credentials) ps
               @ [(INFO, ''Config valid'')]
           \<and> http_calls w' = http_calls world0 + (if \<exists>d. DDG d \<in> set ps then 1 else 0)
           \<and> search_calls w' = search_calls world0
           \<and> sleeps w' = sleeps world0
           \<and> limiter_sleeps w' = limiter_sleeps world0
           \<and> out_file w' = out_file world0"
    by (rule dry_run_exit_code_and_calls
               [where a = args_dry_run and e = env_no_credentials and w = world0 and cfg = cfg0
                  and providers = ps and ?w1.0 = w1,
                THEN c2, THEN c2, THEN c2, THEN c2, THEN mp])
       (intro conjI dr lc bp ne)
  then have a: "\<exists>w'. main env_no_credentials args_dry_run world0 = Some (Exits 0 w')
         \<and> logged w' =
             [missing_credentials_warning,
              (INFO, ''Dry-run: validating providers...''),
              (ERROR, ''Google CSE: missing credentials (GOOGLE_API_KEY or GOOGLE_CSE_ID)''),
              (INFO, ''DuckDuckGo: library available''),
              (INFO, ''Config valid'')]
         \<and> http_calls w' = 1 \<and> search_calls w' = 0 \<and> sleeps w' = [] \<and> limiter_sleeps w' = 0
         \<and> out_file w' = None"
    unfolding ln w0 using g d by simp
  have lb: "load_config (config_at_path env_bad_setting) =
              Inr \<lparr>cfg_keywords = KwList [''plumber austin''],
                   cfg_providers =
                     ProvidersMapping
                       (EntryMapping
                          (no_settings\<lparr>raw_daily_quota_threshold := Unconvertible ValueError\<rparr>))
                       EntryAbsent\<rparr>"
    by (simp add: env_bad_setting_def env0_def load_config_def)
  have bb: "build_providers env_bad_setting args_dry_run
              \<lparr>cfg_keywords = KwList [''plumber austin''],
               cfg_providers =
                 ProvidersMapping
                   (EntryMapping
                      (no_settings\<lparr>raw_daily_quota_threshold := Unconvertible ValueError\<rparr>))
                   EntryAbsent\<rparr> world0 = Inl (ValueError, world0)"
    by code_simp
  have b: "\<exists>en. main env_bad_setting args_dry_run world0 = Some en \<and> exit_status en = 1"
    using dry_run_exit_code_and_calls
               [where a = args_dry_run and e = env_bad_setting and w = world0,
                THEN conjunct1, THEN mp, OF dr]
    unfolding lb by (simp add: bb)
  show ?thesis
    using dr lc[unfolded cfg0_def] bp[unfolded cfg0_def ps_def w1_def] a b by (intro conjI)
qed

end
